theory Spec2Isabelle
  imports Main
begin

section \<open>Strings\<close>

text \<open>
  Python strings are modelled as \<^typ>\<open>string\<close>: a \<^typ>\<open>char\<close> is a Unicode code point
  below 256 (\<^term>\<open>of_char c\<close> is its number), so the strings of the model are the
  Python strings over U+0000 to U+00FF; a string with another code point is outside the
  model. On this range \<open>str.lower\<close>, \<open>str.strip\<close>, \<open>int\<close> and the regular-expression
  classes \<open>\d\<close>, \<open>\s\<close> and \<open>\w\<close> are modelled exactly.
\<close>

text \<open>\<open>c.lower()\<close>: the letters \<open>A\<close> to \<open>Z\<close> and the upper-case letters U+00C0 to U+00DE
  (without the multiplication sign U+00D7) move up by 32; every other code point below
  256 stays.\<close>

definition lower_char :: "char \<Rightarrow> char" where
  "lower_char c =
     (let n = (of_char c :: nat)
      in if (65 \<le> n \<and> n \<le> 90) \<or> (192 \<le> n \<and> n \<le> 214) \<or> (216 \<le> n \<and> n \<le> 222)
         then char_of (n + 32) else c)"

text \<open>\<open>s.lower()\<close>\<close>

definition py_lower :: "string \<Rightarrow> string" where
  "py_lower s = map lower_char s"

text \<open>\<open>s.startswith(p)\<close>\<close>

definition py_startswith :: "string \<Rightarrow> string \<Rightarrow> bool" where
  "py_startswith s p = (take (length p) s = p)"

text \<open>\<open>p in s\<close> for two strings: \<open>p\<close> occurs in \<open>s\<close> as a contiguous substring.\<close>

fun py_in :: "string \<Rightarrow> string \<Rightarrow> bool" where
  "py_in p [] = (p = [])"
| "py_in p (c # cs) = (py_startswith (c # cs) p \<or> py_in p cs)"

definition is_digit :: "char \<Rightarrow> bool" where
  "is_digit c = (c \<in> set ''0123456789'')"

text \<open>The code points below 256 for which \<open>str.isspace\<close> holds; they are the ones the
  class \<open>\s\<close> matches and \<open>str.strip\<close> removes: 9 to 13, 28 to 32, U+0085 and U+00A0.\<close>

definition is_space :: "char \<Rightarrow> bool" where
  "is_space c = (of_char c \<in> set [9, 10, 11, 12, 13, 28, 29, 30, 31, 32, 133, 160 :: nat])"

text \<open>The class \<open>\w\<close> below 256: the underscore and the code points that are alphabetic
  or numeric (\<open>str.isalnum\<close>).\<close>

definition is_word :: "char \<Rightarrow> bool" where
  "is_word c =
     (let n = (of_char c :: nat)
      in (48 \<le> n \<and> n \<le> 57) \<or> (65 \<le> n \<and> n \<le> 90) \<or> n = 95 \<or> (97 \<le> n \<and> n \<le> 122)
         \<or> n \<in> set [170, 178, 179, 181, 185, 186, 188, 189, 190]
         \<or> (192 \<le> n \<and> n \<le> 214) \<or> (216 \<le> n \<and> n \<le> 246) \<or> (248 \<le> n \<and> n \<le> 255))"

definition digit_value :: "char \<Rightarrow> int" where
  "digit_value c = int (of_char c) - 48"

text \<open>\<open>int(s)\<close> on a non-empty run of the digits \<open>0\<close> to \<open>9\<close>.\<close>

definition py_int :: "string \<Rightarrow> int" where
  "py_int ds = foldl (\<lambda>a c. 10 * a + digit_value c) 0 ds"

text \<open>\<open>s.strip()\<close>\<close>

definition py_strip :: "string \<Rightarrow> string" where
  "py_strip s = rev (dropWhile is_space (rev (dropWhile is_space s)))"

section \<open>Exceptions\<close>

text \<open>
  The exception classes of \<open>utils/exceptions.py\<close> and the library exceptions the code
  names in its handlers. Messages are not modelled. \<open>KeyboardInterrupt\<close> is the one
  class here that does not derive from \<open>Exception\<close>.
\<close>

datatype exn =
    AuthenticationError
  | TokenError
  | VideoInfoError
  | DownloadError
  | SearchError
  | FileError
  | RequestException
  | JSONDecodeError
  | AttributeError
  | TypeError
  | KeyError
  | ValueError
  | KeyboardInterrupt

definition is_Exception :: "exn \<Rightarrow> bool" where
  "is_Exception e = (e \<noteq> KeyboardInterrupt)"

section \<open>Quality labels (utils/helpers.py)\<close>

text \<open>\<open>re.search(r'(\d+)', s)\<close>: group 1 of the leftmost match, the maximal digit run there.\<close>

definition re_search_digits :: "string \<Rightarrow> string option" where
  "re_search_digits s =
     (let g = takeWhile is_digit (dropWhile (\<lambda>c. \<not> is_digit c) s)
      in if g = [] then None else Some g)"

text \<open>The table \<open>quality_map\<close> of \<open>parse_quality_from_string\<close>, in its insertion order.\<close>

definition quality_map :: "(string \<times> int) list" where
  "quality_map =
     [(''hd'', 720), (''fhd'', 1080), (''qhd'', 1440), (''uhd'', 2160),
      (''4k'', 2160), (''sd'', 480), (''ld'', 360)]"

text \<open>The loop \<open>for key, value in quality_map.items(): if key in lower_quality: return value\<close>,
  with \<open>return 0\<close> after it.\<close>

fun scan_quality_map :: "(string \<times> int) list \<Rightarrow> string \<Rightarrow> int" where
  "scan_quality_map [] lower_quality = 0"
| "scan_quality_map ((key, val) # rest) lower_quality =
     (if py_in key lower_quality then val else scan_quality_map rest lower_quality)"

definition parse_quality_from_string :: "string \<Rightarrow> int" where
  "parse_quality_from_string quality_str =
     (case re_search_digits quality_str of
        Some g \<Rightarrow> py_int g
      | None \<Rightarrow> scan_quality_map quality_map (py_lower quality_str))"

text \<open>
  \<open>sorted(xs, key=key, reverse=True)\<close>: CPython reverses the list, sorts it stably in
  ascending order of the key and reverses the result, so equal keys keep their order.
\<close>

definition py_sorted_reverse :: "('a \<Rightarrow> int) \<Rightarrow> 'a list \<Rightarrow> 'a list" where
  "py_sorted_reverse key xs = rev (sort_key key (rev xs))"

definition sort_qualities :: "string list \<Rightarrow> string list" where
  "sort_qualities qualities =
     (let quality_values = map (\<lambda>q. (q, parse_quality_from_string q)) qualities;
          sorted_qualities = py_sorted_reverse snd quality_values
      in map fst sorted_qualities)"

section \<open>Video information (core/video\_info.py)\<close>

text \<open>
  \<open>download_links\<close> is a Python dict, which iterates in insertion order: an association
  list with distinct keys.
\<close>

record VideoInfo =
  title :: string
  video_id :: string
  download_links :: "(string \<times> string) list"
  thumbnail :: "string option"
  description :: "string option"
  author :: "string option"
  duration :: "string option"
  views :: "int option"

text \<open>\<open>d[k]\<close>\<close>

definition dict_get :: "('k \<times> 'v) list \<Rightarrow> 'k \<Rightarrow> exn + 'v" where
  "dict_get d k = (case map_of d k of None \<Rightarrow> Inl KeyError | Some v \<Rightarrow> Inr v)"

definition get_best_quality :: "VideoInfo \<Rightarrow> exn + string \<times> string" where
  "get_best_quality self =
     (if download_links self = [] then Inl VideoInfoError
      else let sorted_qualities = sort_qualities (map fst (download_links self))
           in (case sorted_qualities of
                 [] \<Rightarrow> Inl VideoInfoError
               | best_quality # _ \<Rightarrow>
                   (case dict_get (download_links self) best_quality of
                      Inl e \<Rightarrow> Inl e
                    | Inr u \<Rightarrow> Inr (best_quality, u))))"

text \<open>A Python string used as a condition: \<open>None\<close> and the empty string are false.\<close>

definition truthy :: "string option \<Rightarrow> bool" where
  "truthy v = (case v of None \<Rightarrow> False | Some s \<Rightarrow> s \<noteq> [])"

definition get_download_link :: "VideoInfo \<Rightarrow> string option \<Rightarrow> exn + string \<times> string" where
  "get_download_link self preferred_quality =
     (if download_links self = [] then Inl VideoInfoError
      else if truthy preferred_quality \<and> the preferred_quality \<in> fst ` set (download_links self)
      then (case dict_get (download_links self) (the preferred_quality) of
              Inl e \<Rightarrow> Inl e
            | Inr u \<Rightarrow> Inr (the preferred_quality, u))
      else get_best_quality self)"

section \<open>Quality selection (core/downloader.py)\<close>

text \<open>The loop \<open>for quality in download_links: if preferred_quality in quality: return ...\<close>;
  \<open>None\<close> when it ends without returning.\<close>

fun first_containing :: "string \<Rightarrow> (string \<times> string) list \<Rightarrow> (string \<times> string) option" where
  "first_containing preferred_quality [] = None"
| "first_containing preferred_quality ((quality, u) # rest) =
     (if py_in preferred_quality quality then Some (quality, u)
      else first_containing preferred_quality rest)"

definition select_quality :: "VideoInfo \<Rightarrow> string option \<Rightarrow> exn + string \<times> string" where
  "select_quality video_info preferred_quality =
     (if truthy preferred_quality
      then (let p = the preferred_quality in
            if p \<in> fst ` set (download_links video_info)
            then (case dict_get (download_links video_info) p of
                    Inl e \<Rightarrow> Inl e
                  | Inr u \<Rightarrow> Inr (p, u))
            else (case first_containing p (download_links video_info) of
                    Some r \<Rightarrow> Inr r
                  | None \<Rightarrow> get_best_quality video_info))
      else get_best_quality video_info)"

section \<open>The site and the terminal\<close>

text \<open>
  The HTTP session (\<open>requests\<close>), the HTML parser (\<open>BeautifulSoup\<close>), the progress bar
  (\<open>tqdm\<close>) and \<open>time.sleep\<close> are libraries outside the repository. A page is modelled
  by what the selectors of the code find in it, and the outside world by what each call
  of the code returns: the page, or the exception that \<open>session.get\<close>, \<open>session.post\<close>
  or \<open>raise_for_status\<close> raises; for a call that returns nothing, the exception it
  raises, if any. The world answers the same call the same way during one operation.
\<close>

text \<open>A \<open>Tag\<close>: its \<open>.text\<close> and its attributes (\<open>.get(name)\<close>).\<close>

record tag =
  tag_text :: string
  attrs :: "(string \<times> string) list"

definition tag_get :: "tag \<Rightarrow> string \<Rightarrow> string option" where
  "tag_get t name = map_of (attrs t) name"

text \<open>A candidate container of a listing page: the result of each \<open>select_one\<close> the
  parser applies to it (\<open>None\<close> when nothing matches).\<close>

record element =
  a_link_title :: "tag option"
  span_title :: "tag option"
  text_container_h3 :: "tag option"
  a_thumbnail :: "tag option"
  a_link :: "tag option"
  premium_icon :: "tag option"
  img :: "tag option"
  duration_tag :: "tag option"
  user_name_tag :: "tag option"
  views_tag :: "tag option"

text \<open>A listing page: \<open>select_one('.login-premium-requied')\<close> and the containers matched by
  \<open>select('div.video-clip-wrapper, div.video-clip, div.video-cover')\<close>, in document order.\<close>

record listing_page =
  login_required :: "tag option"
  video_elements :: "element list"

text \<open>A video page: what \<open>select_one('.premium-info')\<close>, \<open>select_one('h1.title')\<close>,
  \<open>find('meta', {'property': 'og:image'})\<close>, \<open>select_one('.description')\<close>,
  \<open>select_one('.user-name')\<close>, \<open>select_one('.duration')\<close> and \<open>select_one('.views')\<close>
  find, and the dict that \<open>_extract_download_links\<close> returns for the page (that method
  catches every exception of its two strategies and returns the links found, possibly
  none).\<close>

record video_page =
  premium_info :: "tag option"
  h1_title :: "tag option"
  og_image :: "tag option"
  description_el :: "tag option"
  user_name_el :: "tag option"
  duration_el :: "tag option"
  views_el :: "tag option"
  extracted_links :: "(string \<times> string) list"

type_synonym path = string

record site =
  get_csrf_token :: "exn + string"
  post_login :: "string \<Rightarrow> string \<Rightarrow> string \<Rightarrow> exn + string"
  get_logout :: "exn + unit"
  get_folder :: "string \<Rightarrow> int option \<Rightarrow> exn + listing_page"
  get_video_page :: "string option \<Rightarrow> exn + video_page"
  download_file :: "string \<Rightarrow> path \<Rightarrow> exn + unit"
  tqdm_init :: "exn option"
  tqdm_set_description :: "exn option"
  tqdm_update :: "exn option"
  tqdm_close :: "exn option"
  time_sleep :: "exn option"

text \<open>
  \<^item> \<open>get_csrf_token\<close>: what \<open>AuthService.get_csrf_token\<close> returns or raises;
  \<^item> \<open>post_login username password token\<close>: \<open>response.text\<close> of the login request;
  \<^item> \<open>get_logout\<close>: the logout request;
  \<^item> \<open>get_folder folder_id page\<close>: the folder page, \<open>page\<close> being the \<open>page\<close> parameter
    of the request when one is sent;
  \<^item> \<open>get_video_page url\<close>: the video page;
  \<^item> \<open>download_file url filepath\<close>: what \<open>DownloaderService._download_file\<close> does
    (\<open>DownloadError\<close>, \<open>FileError\<close>, or the file written);
  \<^item> \<open>tqdm_init\<close>, \<open>tqdm_set_description\<close>, \<open>tqdm_update\<close>, \<open>tqdm_close\<close>: the
    exception raised by \<open>tqdm(...)\<close>, \<open>progress_bar.set_description(...)\<close>,
    \<open>progress_bar.update(1)\<close> and \<open>progress_bar.close()\<close>, \<open>None\<close> when the call returns;
  \<^item> \<open>time_sleep\<close>: the exception raised during \<open>time.sleep\<close> (an interrupt), \<open>None\<close>
    when it returns.
\<close>

section \<open>Authentication (core/auth.py)\<close>

record auth_state =
  logged_in :: bool
  username :: "string option"

definition AuthService_init :: auth_state where
  "AuthService_init = \<lparr>logged_in = False, username = None\<rparr>"

definition login :: "site \<Rightarrow> auth_state \<Rightarrow> string \<Rightarrow> string \<Rightarrow> (exn + bool) \<times> auth_state" where
  "login w self user password =
     (if logged_in self then (Inr True, self)
      else
        (case (case get_csrf_token w of
                 Inl e \<Rightarrow> (Inl e, self)
               | Inr csrf_token \<Rightarrow>
                   (case post_login w user password csrf_token of
                      Inl e \<Rightarrow> (Inl e, self)
                    | Inr response_text \<Rightarrow>
                        if py_in ''premium'' (py_lower response_text)
                           \<and> py_in (py_lower user) (py_lower response_text)
                        then (Inr True, self\<lparr>logged_in := True, username := Some user\<rparr>)
                        else (Inr False, self)))
         of (Inl e, self') \<Rightarrow>
              if e = TokenError then (Inl TokenError, self')
              else if e = RequestException then (Inl AuthenticationError, self')
              else (Inl e, self')
          | (Inr b, self') \<Rightarrow> (Inr b, self')))"

definition logout :: "site \<Rightarrow> auth_state \<Rightarrow> (exn + bool) \<times> auth_state" where
  "logout w self =
     (if \<not> logged_in self then (Inr True, self)
      else
        (case get_logout w of
           Inr _ \<Rightarrow> (Inr True, self\<lparr>logged_in := False, username := None\<rparr>)
         | Inl e \<Rightarrow> if e = RequestException then (Inr False, self) else (Inl e, self)))"

definition ensure_logged_in :: "auth_state \<Rightarrow> exn + bool" where
  "ensure_logged_in self = (if \<not> logged_in self then Inl AuthenticationError else Inr True)"

section \<open>Video pages (core/video\_info.py)\<close>

text \<open>\<open>re.search(r'cda\.pl/video/(\w+)', url)\<close>: group 1 of the leftmost match.\<close>

fun search_video_pattern :: "string \<Rightarrow> string option" where
  "search_video_pattern [] = None"
| "search_video_pattern (c # cs) =
     (let g = takeWhile is_word (drop 13 (c # cs))
      in if py_startswith (c # cs) ''cda.pl/video/'' \<and> g \<noteq> [] then Some g
         else search_video_pattern cs)"

text \<open>\<open>re.search(r'cda\.pl/(\w+)/(\w+)', url)\<close>: group 2 of the leftmost match. The first
  group can only be the whole run of word characters, since a shorter one is followed
  by a word character and not by the slash.\<close>

fun search_user_pattern :: "string \<Rightarrow> string option" where
  "search_user_pattern [] = None"
| "search_user_pattern (c # cs) =
     (let after = drop 7 (c # cs);
          g1 = takeWhile is_word after;
          rest = dropWhile is_word after;
          g2 = takeWhile is_word (drop 1 rest)
      in if py_startswith (c # cs) ''cda.pl/'' \<and> g1 \<noteq> [] \<and> py_startswith rest ''/'' \<and> g2 \<noteq> []
         then Some g2
         else search_user_pattern cs)"

definition extract_video_id_from_url :: "string \<Rightarrow> exn + string" where
  "extract_video_id_from_url url' =
     (case search_video_pattern url' of
        Some g \<Rightarrow> Inr g
      | None \<Rightarrow>
          (case search_user_pattern url' of
             Some g \<Rightarrow> Inr g
           | None \<Rightarrow> Inl VideoInfoError))"

text \<open>The group of \<open>(\d+(?:\s*\d+)*)\<close> from its first digit on: \<open>matched\<close> is the match so
  far (it ends with a digit), \<open>pending\<close> the white space read after it, which belongs to
  the match only when a digit follows.\<close>

fun views_scan :: "string \<Rightarrow> string \<Rightarrow> string \<Rightarrow> string" where
  "views_scan matched pending [] = matched"
| "views_scan matched pending (c # cs) =
     (if is_digit c then views_scan (matched @ pending @ [c]) [] cs
      else if is_space c then views_scan matched (pending @ [c]) cs
      else matched)"

text \<open>\<open>re.search(r'(\d+(?:\s*\d+)*)', s)\<close>: group 1 of the leftmost match.\<close>

definition re_search_views :: "string \<Rightarrow> string option" where
  "re_search_views s =
     (case dropWhile (\<lambda>c. \<not> is_digit c) s of
        [] \<Rightarrow> None
      | d # rest \<Rightarrow> Some (views_scan [d] [] rest))"

text \<open>\<open>int(g.replace(" ", ""))\<close> for such a group \<open>g\<close>: the spaces are removed; \<open>int\<close>
  raises \<open>ValueError\<close> when other white space is left between the digits.\<close>

definition views_int :: "string \<Rightarrow> exn + int" where
  "views_int g =
     (let t = filter (\<lambda>c. c \<noteq> CHR '' '') g
      in if list_all is_digit t then Inr (py_int t) else Inl ValueError)"

definition parse_views :: "tag option \<Rightarrow> exn + int option" where
  "parse_views views_element =
     (case views_element of
        None \<Rightarrow> Inr None
      | Some t \<Rightarrow>
          (case re_search_views (py_strip (tag_text t)) of
             None \<Rightarrow> Inr None
           | Some g \<Rightarrow>
               (case views_int g of
                  Inl e \<Rightarrow> Inl e
                | Inr n \<Rightarrow> Inr (Some n))))"

definition stripped_text :: "tag option \<Rightarrow> string option" where
  "stripped_text t = map_option (\<lambda>x. py_strip (tag_text x)) t"

text \<open>\<open>get_video_info\<close>: the body of its \<open>try\<close>, then its two handlers. \<open>re.search\<close> on
  \<open>None\<close> raises \<open>TypeError\<close>.\<close>

definition get_video_info :: "site \<Rightarrow> string option \<Rightarrow> exn + VideoInfo" where
  "get_video_info w video_url =
     (case (case get_video_page w video_url of
              Inl e \<Rightarrow> Inl e
            | Inr soup \<Rightarrow>
                if (case premium_info soup of
                      None \<Rightarrow> False
                    | Some t \<Rightarrow> py_in ''zaloguj'' (py_lower (tag_text t)))
                then Inl AuthenticationError
                else
                  (case (case video_url of
                           None \<Rightarrow> Inl TypeError
                         | Some u \<Rightarrow> extract_video_id_from_url u) of
                     Inl e \<Rightarrow> Inl e
                   | Inr vid \<Rightarrow>
                       (let title' = (case h1_title soup of
                                        Some t \<Rightarrow> py_strip (tag_text t)
                                      | None \<Rightarrow> ''film_bez_tytulu'');
                            thumbnail' = (case og_image soup of
                                            Some t \<Rightarrow> tag_get t ''content''
                                          | None \<Rightarrow> None)
                        in (case parse_views (views_el soup) of
                              Inl e \<Rightarrow> Inl e
                            | Inr views' \<Rightarrow>
                                if extracted_links soup = [] then Inl VideoInfoError
                                else Inr \<lparr>title = title', video_id = vid,
                                          download_links = extracted_links soup,
                                          thumbnail = thumbnail',
                                          description = stripped_text (description_el soup),
                                          author = stripped_text (user_name_el soup),
                                          duration = stripped_text (duration_el soup),
                                          views = views'\<rparr>))))
      of Inl e \<Rightarrow>
           if e = RequestException \<or> e = JSONDecodeError \<or> e = AttributeError
           then Inl VideoInfoError else Inl e
       | Inr video_info \<Rightarrow> Inr video_info)"

section \<open>Listing pages (core/search.py)\<close>

record SearchResult =
  title :: string
  url :: "string option"
  thumbnail :: "string option"
  duration :: "string option"
  author :: "string option"
  views :: "string option"
  premium :: bool

definition base_url :: string where
  "base_url = ''https://www.cda.pl''"

text \<open>\<open>a or b\<close> on two \<open>select_one\<close> results: a \<open>Tag\<close> is always true, \<open>None\<close> is false.\<close>

definition tag_or :: "tag option \<Rightarrow> tag option \<Rightarrow> tag option" where
  "tag_or a b = (case a of Some t \<Rightarrow> Some t | None \<Rightarrow> b)"

text \<open>\<open>a or b\<close> on two attribute values.\<close>

definition str_or :: "string option \<Rightarrow> string option \<Rightarrow> string option" where
  "str_or a b = (if truthy a then a else b)"

definition title_element :: "element \<Rightarrow> tag option" where
  "title_element e = tag_or (a_link_title e) (tag_or (span_title e) (text_container_h3 e))"

definition url_element :: "element \<Rightarrow> tag option" where
  "url_element e = tag_or (a_link_title e) (tag_or (a_thumbnail e) (a_link e))"

text \<open>The body of the \<open>try\<close> in the loop of \<open>_parse_search_results\<close>: the record appended
  for one container, \<open>None\<close> when nothing is appended. No operation of the body raises
  on the pages modelled here.\<close>

definition parse_element :: "element \<Rightarrow> SearchResult option" where
  "parse_element e =
     (case title_element e of
        None \<Rightarrow> None
      | Some title_el \<Rightarrow>
          (case url_element e of
             None \<Rightarrow> None
           | Some url_el \<Rightarrow>
               (let title' = py_strip (tag_text title_el);
                    href = tag_get url_el ''href'';
                    url' = (if truthy href \<and> \<not> py_startswith (the href) ''http''
                            then Some (base_url @ the href) else href);
                    premium' = (premium_icon e \<noteq> None);
                    thumbnail' = (case img e of
                                    None \<Rightarrow> None
                                  | Some i \<Rightarrow> str_or (tag_get i ''src'') (tag_get i ''data-src''))
                in Some \<lparr>title = title', url = url', thumbnail = thumbnail',
                         duration = stripped_text (duration_tag e),
                         author = stripped_text (user_name_tag e),
                         views = stripped_text (views_tag e),
                         premium = premium'\<rparr>)))"

text \<open>The loop \<open>for element in video_elements\<close> with its accumulator \<open>results\<close>.\<close>

fun parse_loop :: "element list \<Rightarrow> SearchResult list \<Rightarrow> SearchResult list" where
  "parse_loop [] results = results"
| "parse_loop (e # es) results =
     (case parse_element e of
        None \<Rightarrow> parse_loop es results
      | Some r \<Rightarrow> parse_loop es (results @ [r]))"

definition parse_search_results :: "listing_page \<Rightarrow> exn + SearchResult list" where
  "parse_search_results html_content =
     (if login_required html_content \<noteq> None then Inl AuthenticationError
      else Inr (parse_loop (video_elements html_content) []))"

definition search_in_folder :: "site \<Rightarrow> string \<Rightarrow> int \<Rightarrow> exn + SearchResult list" where
  "search_in_folder w folder_id page =
     (case (case get_folder w folder_id (if page > 1 then Some page else None) of
              Inl e \<Rightarrow> Inl e
            | Inr html_content \<Rightarrow> parse_search_results html_content)
      of Inl e \<Rightarrow> if e = RequestException then Inl SearchError else Inl e
       | Inr results \<Rightarrow> Inr results)"

section \<open>Downloading (core/downloader.py)\<close>

definition forbidden_chars :: string where
  "forbidden_chars = [CHR 0x5C, CHR ''/'', CHR ''*'', CHR ''?'', CHR '':'', CHR 0x22,
                      CHR ''<'', CHR ''>'', CHR ''|'']"

text \<open>\<open>re.sub(r'\s+', "_", s)\<close>\<close>

function collapse_whitespace :: "string \<Rightarrow> string" where
  "collapse_whitespace [] = []"
| "collapse_whitespace (c # cs) =
     (if is_space c then CHR ''_'' # collapse_whitespace (dropWhile is_space cs)
      else c # collapse_whitespace cs)"
  by pat_completeness auto
termination
  by (relation "measure length") (auto simp: length_dropWhile_le less_Suc_eq_le)

definition sanitize_filename :: "string \<Rightarrow> string" where
  "sanitize_filename title' =
     take 80 (collapse_whitespace (filter (\<lambda>c. c \<notin> set forbidden_chars) title'))"

text \<open>\<open>extension\<close> has its default value \<open>"mp4"\<close> at every call of the code.\<close>

definition create_video_filename :: "string \<Rightarrow> string \<Rightarrow> string" where
  "create_video_filename title' quality = sanitize_filename title' @ ''_'' @ quality @ ''.mp4''"

text \<open>\<open>download_dir / filename\<close>\<close>

definition path_join :: "path \<Rightarrow> string \<Rightarrow> path" where
  "path_join d filename = d @ ''/'' @ filename"

text \<open>\<open>DownloaderService\<close>: its mutable attribute.\<close>

record downloader_state =
  download_dir :: path

text \<open>\<open>DownloaderService.download\<close>: the body of its \<open>try\<close>, then its handler
  \<open>except Exception as e: raise DownloadError(...)\<close>.\<close>

definition download :: "site \<Rightarrow> downloader_state \<Rightarrow> string option \<Rightarrow> string option \<Rightarrow> exn + path" where
  "download w self video_url preferred_quality =
     (case (case get_video_info w video_url of
              Inl e \<Rightarrow> Inl e
            | Inr video_info \<Rightarrow>
                (case select_quality video_info preferred_quality of
                   Inl e \<Rightarrow> Inl e
                 | Inr (quality, download_url) \<Rightarrow>
                     (let filename = create_video_filename (VideoInfo.title video_info) quality;
                          filepath = path_join (download_dir self) filename
                      in (case download_file w download_url filepath of
                            Inl e \<Rightarrow> Inl e
                          | Inr _ \<Rightarrow> Inr filepath))))
      of Inl e \<Rightarrow> if is_Exception e then Inl DownloadError else Inl e
       | Inr filepath \<Rightarrow> Inr filepath)"

section \<open>Batches and the folder crawl (cli/cli\_handler.py)\<close>

text \<open>The body of the inner \<open>try\<close> of \<open>_download_all_from_results\<close> for one record:
  \<open>progress_bar.set_description(...)\<close>, then the download.\<close>

definition download_item ::
  "site \<Rightarrow> downloader_state \<Rightarrow> string option \<Rightarrow> SearchResult \<Rightarrow> exn + path" where
  "download_item w ds quality result =
     (case tqdm_set_description w of
        Some e \<Rightarrow> Inl e
      | None \<Rightarrow> download w ds (url result) quality)"

text \<open>What follows the inner \<open>try\<close> for one record: \<open>progress_bar.update(1)\<close>, then
  \<open>time.sleep(1)\<close> unless the record is the last one. The exception raised, if any.\<close>

definition after_item :: "site \<Rightarrow> bool \<Rightarrow> exn option" where
  "after_item w is_last =
     (case tqdm_update w of
        Some e \<Rightarrow> Some e
      | None \<Rightarrow> if is_last then None else time_sleep w)"

text \<open>The loop of \<open>_download_all_from_results\<close> with its counters.\<close>

fun download_loop ::
  "site \<Rightarrow> downloader_state \<Rightarrow> string option \<Rightarrow> SearchResult list \<Rightarrow> int \<Rightarrow> int \<Rightarrow> exn + int \<times> int" where
  "download_loop w ds quality [] downloaded skipped = Inr (downloaded, skipped)"
| "download_loop w ds quality (result # rest) downloaded skipped =
     (case download_item w ds quality result of
        Inr filepath \<Rightarrow>
          (case after_item w (rest = []) of
             Some e \<Rightarrow> Inl e
           | None \<Rightarrow> download_loop w ds quality rest (downloaded + 1) skipped)
      | Inl e \<Rightarrow>
          if e = VideoInfoError \<or> e = DownloadError \<or> e = FileError
          then (case after_item w (rest = []) of
                  Some e' \<Rightarrow> Inl e'
                | None \<Rightarrow> download_loop w ds quality rest downloaded (skipped + 1))
          else Inl e)"

text \<open>\<open>_download_all_from_results\<close>: what it returns or raises, and the downloader
  afterwards. The override is installed and the progress bar is built before the outer
  \<open>try\<close>; its \<open>finally\<close> clause runs on both outcomes of the loop and closes the progress
  bar before it restores the directory.\<close>

definition download_all_from_results ::
  "site \<Rightarrow> downloader_state \<Rightarrow> SearchResult list \<Rightarrow> string option \<Rightarrow> path option
     \<Rightarrow> (exn + int \<times> int) \<times> downloader_state" where
  "download_all_from_results w ds results quality download_dir' =
     (if results = [] then (Inr (0, 0), ds)
      else
        (let original_download_dir = download_dir ds;
             ds1 = (case download_dir' of
                      Some d \<Rightarrow> ds\<lparr>download_dir := d\<rparr>
                    | None \<Rightarrow> ds)
         in case tqdm_init w of
              Some e \<Rightarrow> (Inl e, ds1)
            | None \<Rightarrow>
                (let outcome = download_loop w ds1 quality results 0 0
                 in case tqdm_close w of
                      Some e \<Rightarrow> (Inl e, ds1)
                    | None \<Rightarrow>
                        (outcome,
                         case download_dir' of
                           Some d \<Rightarrow> ds1\<lparr>download_dir := original_download_dir\<rparr>
                         | None \<Rightarrow> ds1))))"

text \<open>The local variables of \<open>_download_folder\<close> that its loop updates.\<close>

record crawl =
  current_page :: int
  total_downloaded :: int
  total_skipped :: int

text \<open>\<open>if end_page and current_page > end_page\<close>: \<open>None\<close> and \<open>0\<close> are false.\<close>

definition reached_end :: "int option \<Rightarrow> int \<Rightarrow> bool" where
  "reached_end end_page page = (case end_page of None \<Rightarrow> False | Some n \<Rightarrow> n \<noteq> 0 \<and> page > n)"

text \<open>One iteration of \<open>while True\<close>: the loop is left by \<open>break\<close> (\<open>Finished\<close>, with the
  page number and the totals at that point), by an exception (\<open>Raised\<close>), or goes on to
  the next iteration after \<open>time.sleep(2)\<close>.\<close>

datatype step = Finished crawl | Raised exn | Continue crawl

definition download_folder_step ::
  "site \<Rightarrow> string \<Rightarrow> string option \<Rightarrow> int option \<Rightarrow> bool \<Rightarrow> crawl \<times> downloader_state
     \<Rightarrow> step \<times> downloader_state" where
  "download_folder_step w folder_id quality end_page premium_only st =
     (let c = fst st; ds = snd st in
      case search_in_folder w folder_id (current_page c) of
        Inl e \<Rightarrow> if e = SearchError then (Finished c, ds) else (Raised e, ds)
      | Inr results \<Rightarrow>
          if results = [] then (Finished c, ds)
          else
            (let filtered_results = (if premium_only then filter premium results else results);
                 skipped_count = (if premium_only
                                  then int (length results) - int (length filtered_results)
                                  else 0);
                 c1 = c\<lparr>total_skipped := total_skipped c + skipped_count\<rparr>
             in case download_all_from_results w ds filtered_results quality None of
                  (Inl e, ds') \<Rightarrow> (Raised e, ds')
                | (Inr (downloaded, skipped), ds') \<Rightarrow>
                    (let c2 = c1\<lparr>total_downloaded := total_downloaded c1 + downloaded,
                                  total_skipped := total_skipped c1 + skipped,
                                  current_page := current_page c1 + 1\<rparr>
                     in if reached_end end_page (current_page c2) then (Finished c2, ds')
                        else (case time_sleep w of
                                Some e \<Rightarrow> (Raised e, ds')
                              | None \<Rightarrow> (Continue c2, ds')))))"

text \<open>The loop itself. It need not end: \<open>None\<close> is the crawl that never returns. When
  the loop is left by \<open>break\<close> the function prints the totals and returns; the model
  returns the page number and the totals at that point.\<close>

partial_function (option) download_folder_loop ::
  "site \<Rightarrow> string \<Rightarrow> string option \<Rightarrow> int option \<Rightarrow> bool \<Rightarrow> crawl \<times> downloader_state
     \<Rightarrow> ((exn + crawl) \<times> downloader_state) option" where
  [code]: "download_folder_loop w folder_id quality end_page premium_only st =
     (case download_folder_step w folder_id quality end_page premium_only st of
        (Finished c, ds) \<Rightarrow> Some (Inr c, ds)
      | (Raised e, ds) \<Rightarrow> Some (Inl e, ds)
      | (Continue c, ds) \<Rightarrow>
          download_folder_loop w folder_id quality end_page premium_only (c, ds))"

definition download_folder ::
  "site \<Rightarrow> downloader_state \<Rightarrow> string \<Rightarrow> string option \<Rightarrow> int \<Rightarrow> int option \<Rightarrow> bool
     \<Rightarrow> ((exn + crawl) \<times> downloader_state) option" where
  "download_folder w ds folder_id quality start_page end_page premium_only =
     download_folder_loop w folder_id quality end_page premium_only
       (\<lparr>current_page = start_page, total_downloaded = 0, total_skipped = 0\<rparr>, ds)"

section \<open>The pages of a crawl\<close>

text \<open>
  What the properties of the crawl are stated with. \<open>page_dispatch\<close> is what one page
  adds to the two totals when the page has records and the batch over them returns:
  the successful downloads, and the records dropped by the premium filter plus the
  failed downloads; \<open>None\<close> for any other page.
\<close>

definition page_dispatch ::
  "site \<Rightarrow> downloader_state \<Rightarrow> string \<Rightarrow> string option \<Rightarrow> bool \<Rightarrow> int \<Rightarrow> (int \<times> int) option" where
  "page_dispatch w ds folder_id quality premium_only p =
     (case search_in_folder w folder_id p of
        Inl e \<Rightarrow> None
      | Inr rs \<Rightarrow>
          if rs = [] then None
          else
            (case fst (download_all_from_results w ds
                         (if premium_only then filter premium rs else rs) quality None) of
               Inl e \<Rightarrow> None
             | Inr (d, k) \<Rightarrow>
                 Some (d, (if premium_only
                           then int (length (filter (\<lambda>r. \<not> premium r) rs)) else 0) + k)))"

definition page_downloaded ::
  "site \<Rightarrow> downloader_state \<Rightarrow> string \<Rightarrow> string option \<Rightarrow> bool \<Rightarrow> int \<Rightarrow> int" where
  "page_downloaded w ds folder_id quality premium_only p =
     (case page_dispatch w ds folder_id quality premium_only p of
        None \<Rightarrow> 0
      | Some (d, k) \<Rightarrow> d)"

definition page_skipped ::
  "site \<Rightarrow> downloader_state \<Rightarrow> string \<Rightarrow> string option \<Rightarrow> bool \<Rightarrow> int \<Rightarrow> int" where
  "page_skipped w ds folder_id quality premium_only p =
     (case page_dispatch w ds folder_id quality premium_only p of
        None \<Rightarrow> 0
      | Some (d, k) \<Rightarrow> k)"

text \<open>The page number and the totals after the \<open>n\<close> pages that follow the state \<open>c\<close>.\<close>

definition after_pages ::
  "site \<Rightarrow> downloader_state \<Rightarrow> string \<Rightarrow> string option \<Rightarrow> bool \<Rightarrow> crawl \<Rightarrow> nat \<Rightarrow> crawl" where
  "after_pages w ds folder_id quality premium_only c n =
     \<lparr>current_page = current_page c + int n,
      total_downloaded = total_downloaded c +
        (\<Sum>i \<leftarrow> [0..<n]. page_downloaded w ds folder_id quality premium_only (current_page c + int i)),
      total_skipped = total_skipped c +
        (\<Sum>i \<leftarrow> [0..<n]. page_skipped w ds folder_id quality premium_only (current_page c + int i))\<rparr>"

text \<open>The page number \<open>p\<close> exceeds the end page, when one is set (\<open>None\<close> and \<open>0\<close> set
  none).\<close>

definition past_end :: "int option \<Rightarrow> int \<Rightarrow> bool" where
  "past_end end_page p = (case end_page of None \<Rightarrow> False | Some e \<Rightarrow> e \<noteq> 0 \<and> e < p)"

text \<open>The fetch of page \<open>p\<close> fails with \<open>SearchError\<close> or yields zero records.\<close>

definition fetch_ends :: "site \<Rightarrow> string \<Rightarrow> int \<Rightarrow> bool" where
  "fetch_ends w folder_id p =
     (search_in_folder w folder_id p = Inl SearchError \<or> search_in_folder w folder_id p = Inr [])"

text \<open>Page \<open>p\<close> is dispatched and the next page number exceeds the end page.\<close>

definition page_is_last ::
  "site \<Rightarrow> downloader_state \<Rightarrow> string \<Rightarrow> string option \<Rightarrow> int option \<Rightarrow> bool \<Rightarrow> int \<Rightarrow> bool" where
  "page_is_last w ds folder_id quality end_page premium_only p =
     (page_dispatch w ds folder_id quality premium_only p \<noteq> None \<and> past_end end_page (p + 1))"

text \<open>Page \<open>p\<close> is dispatched, the next page number does not exceed the end page, and
  the pause before the next page is not interrupted.\<close>

definition page_goes_on ::
  "site \<Rightarrow> downloader_state \<Rightarrow> string \<Rightarrow> string option \<Rightarrow> int option \<Rightarrow> bool \<Rightarrow> int \<Rightarrow> bool" where
  "page_goes_on w ds folder_id quality end_page premium_only p =
     (page_dispatch w ds folder_id quality premium_only p \<noteq> None \<and>
      \<not> past_end end_page (p + 1) \<and> time_sleep w = None)"

section \<open>Fixtures\<close>

text \<open>Concrete inputs on which the properties below are evaluated.\<close>

definition links_720_1080 :: VideoInfo where
  "links_720_1080 =
     \<lparr>VideoInfo.title = ''t'', video_id = ''v'',
      download_links = [(''720p'', ''a''), (''1080p'', ''b'')],
      VideoInfo.thumbnail = None, description = None, VideoInfo.author = None,
      VideoInfo.duration = None, VideoInfo.views = None\<rparr>"

definition links_tie :: VideoInfo where
  "links_tie =
     \<lparr>VideoInfo.title = ''t'', video_id = ''v'',
      download_links = [(''480p'', ''c''), (''hd'', ''a''), (''720p'', ''b'')],
      VideoInfo.thumbnail = None, description = None, VideoInfo.author = None,
      VideoInfo.duration = None, VideoInfo.views = None\<rparr>"

definition links_none :: VideoInfo where
  "links_none =
     \<lparr>VideoInfo.title = ''t'', video_id = ''v'', download_links = [],
      VideoInfo.thumbnail = None, description = None, VideoInfo.author = None,
      VideoInfo.duration = None, VideoInfo.views = None\<rparr>"

definition anchor :: "string \<Rightarrow> string \<Rightarrow> tag" where
  "anchor t h = \<lparr>tag_text = t, attrs = [(''href'', h)]\<rparr>"

definition plain :: "string \<Rightarrow> tag" where
  "plain t = \<lparr>tag_text = t, attrs = []\<rparr>"

definition element_none :: element where
  "element_none =
     \<lparr>a_link_title = None, span_title = None, text_container_h3 = None, a_thumbnail = None,
      a_link = None, premium_icon = None, img = None, duration_tag = None,
      user_name_tag = None, views_tag = None\<rparr>"

text \<open>A container with a title link, and one with a title but no link at all.\<close>

definition item :: "string \<Rightarrow> string \<Rightarrow> element" where
  "item t h = element_none\<lparr>a_link_title := Some (anchor t h)\<rparr>"

definition item_title_only :: "string \<Rightarrow> element" where
  "item_title_only t = element_none\<lparr>span_title := Some (plain t)\<rparr>"

text \<open>A container in which every selector of both lists matches, with white space (the
  no-break space U+00A0 and U+0085 included) around the title; one in which only the
  later selectors match, its first link being absolute; one whose only link has no
  \<open>href\<close>.\<close>

definition item_rich :: element where
  "item_rich =
     element_none\<lparr>a_link_title := Some (anchor ([CHR 0xA0] @ '' Tytul '' @ [CHR 0x85]) ''/video/t1''),
                  span_title := Some (plain ''Inny''),
                  text_container_h3 := Some (plain ''Trzeci''),
                  a_thumbnail := Some (anchor ''miniatura'' ''/video/other''),
                  a_link := Some (anchor ''link'' ''/video/last''),
                  premium_icon := Some (plain ''P''),
                  img := Some \<lparr>tag_text = [], attrs = [(''src'', []), (''data-src'', ''t.jpg'')]\<rparr>,
                  duration_tag := Some (plain '' 01:30 ''),
                  views_tag := Some (plain ''12 tys.'')\<rparr>"

definition item_fallbacks :: element where
  "item_fallbacks =
     element_none\<lparr>text_container_h3 := Some (plain ''Trzeci''),
                  span_title := Some (plain ''Drugi''),
                  a_link := Some (anchor ''link'' ''/video/last''),
                  a_thumbnail := Some (anchor ''miniatura'' ''http://inny.example/v'')\<rparr>"

definition item_no_href :: element where
  "item_no_href = element_none\<lparr>span_title := Some (plain ''Bez''), a_link := Some (plain ''x'')\<rparr>"

definition page_three :: listing_page where
  "page_three =
     \<lparr>login_required = None,
      video_elements = [item ''A'' ''/video/a1'', item ''B'' ''/video/b2'', item ''C'' ''/video/c3'']\<rparr>"

definition page_empty :: listing_page where
  "page_empty = \<lparr>login_required = None, video_elements = []\<rparr>"

definition page_mixed :: listing_page where
  "page_mixed =
     \<lparr>login_required = None,
      video_elements = [item_rich, item_title_only ''X'', item_fallbacks, item_no_href]\<rparr>"

definition page_title_only :: listing_page where
  "page_title_only = \<lparr>login_required = None, video_elements = [item_title_only ''X'']\<rparr>"

definition page_walled :: listing_page where
  "page_walled = page_three\<lparr>login_required := Some (plain ''Zaloguj'')\<rparr>"

definition video_ok :: video_page where
  "video_ok =
     \<lparr>premium_info = None, h1_title = Some (plain ''Film''), og_image = None,
      description_el = None, user_name_el = None, duration_el = None,
      views_el = Some (plain ''1 234 odslon''),
      extracted_links = [(''720p'', ''https://v/7''), (''1080p'', ''https://v/10'')]\<rparr>"

definition video_walled :: video_page where
  "video_walled = video_ok\<lparr>premium_info := Some (plain ''Zaloguj sie, aby obejrzec'')\<rparr>"

text \<open>A site whose folder has three records on its first page and none on the others,
  and where every video resolves and downloads; no call of the progress bar raises and
  no pause is interrupted.\<close>

definition site_fixture :: site where
  "site_fixture =
     \<lparr>get_csrf_token = Inr ''tok'',
      post_login = (\<lambda>u p t. Inr ''Witaj w CDA Premium, BOB''),
      get_logout = Inr (),
      get_folder = (\<lambda>f p. if p = None then Inr page_three else Inr page_empty),
      get_video_page = (\<lambda>u. Inr video_ok),
      download_file = (\<lambda>u p. Inr ()),
      tqdm_init = None, tqdm_set_description = None, tqdm_update = None, tqdm_close = None,
      time_sleep = None\<rparr>"

text \<open>The same site with the second video behind the login wall, with an interrupt
  during every transfer, with a failing folder request, with a failing logout request.\<close>

definition site_walled :: site where
  "site_walled =
     site_fixture\<lparr>get_video_page :=
       (\<lambda>u. if u = Some ''https://www.cda.pl/video/b2'' then Inr video_walled else Inr video_ok)\<rparr>"

definition site_interrupted :: site where
  "site_interrupted = site_fixture\<lparr>download_file := (\<lambda>u p. Inl KeyboardInterrupt)\<rparr>"

definition site_folder_down :: site where
  "site_folder_down = site_fixture\<lparr>get_folder := (\<lambda>f p. Inl RequestException)\<rparr>"

text \<open>The same site with a failing request for every page after the first, and with
  three records on every page.\<close>

definition site_second_page_down :: site where
  "site_second_page_down =
     site_fixture\<lparr>get_folder :=
       (\<lambda>f p. if p = None then Inr page_three else Inl RequestException)\<rparr>"

definition site_endless :: site where
  "site_endless = site_fixture\<lparr>get_folder := (\<lambda>f p. Inr page_three)\<rparr>"

definition site_logout_down :: site where
  "site_logout_down = site_fixture\<lparr>get_logout := Inl RequestException\<rparr>"

text \<open>The same site with an interrupt while the progress bar is built, and with a
  progress bar whose \<open>close\<close> is interrupted.\<close>

definition site_bar_interrupted :: site where
  "site_bar_interrupted = site_fixture\<lparr>tqdm_init := Some KeyboardInterrupt\<rparr>"

definition site_bar_close_interrupted :: site where
  "site_bar_close_interrupted = site_fixture\<lparr>tqdm_close := Some KeyboardInterrupt\<rparr>"

text \<open>A site that accepts a transfer only into the directory \<open>inne\<close>.\<close>

definition site_only_inne :: site where
  "site_only_inne =
     site_fixture\<lparr>download_file :=
       (\<lambda>u p. if py_startswith p ''inne/'' then Inr () else Inl FileError)\<rparr>"

text \<open>A site whose answer to the login names the user with the letter U+00F3, and the
  user name in capitals, with U+00D3.\<close>

definition site_jozef :: site where
  "site_jozef =
     site_fixture\<lparr>post_login := (\<lambda>u p t. Inr (''Konto premium: J'' @ [CHR 0xF3] @ ''zef''))\<rparr>"

definition user_jozef :: string where
  "user_jozef = ''J'' @ [CHR 0xD3] @ ''ZEF''"

definition results_three :: "SearchResult list" where
  "results_three = parse_loop (video_elements page_three) []"

definition downloads :: downloader_state where
  "downloads = \<lparr>download_dir = ''pobrane_filmy''\<rparr>"

definition bob :: auth_state where
  "bob = \<lparr>logged_in = True, username = Some ''bob''\<rparr>"

section \<open>Properties: strings\<close>

lemma py_in_iff: "py_in p s \<longleftrightarrow> (\<exists>pre post. s = pre @ p @ post)"
proof (induction s)
  case Nil
  then show ?case by auto
next
  case (Cons c cs)
  show ?case
  proof
    assume "py_in p (c # cs)"
    then consider "py_startswith (c # cs) p" | "py_in p cs" by auto
    then show "\<exists>pre post. c # cs = pre @ p @ post"
    proof cases
      case 1
      then have "c # cs = [] @ p @ drop (length p) (c # cs)"
        unfolding py_startswith_def by (metis append_Nil append_take_drop_id)
      then show ?thesis by blast
    next
      case 2
      then obtain pre post where "cs = pre @ p @ post" using Cons.IH by auto
      then have "c # cs = (c # pre) @ p @ post" by simp
      then show ?thesis by blast
    qed
  next
    assume "\<exists>pre post. c # cs = pre @ p @ post"
    then obtain pre post where eq: "c # cs = pre @ p @ post" by auto
    show "py_in p (c # cs)"
    proof (cases pre)
      case Nil
      then have "py_startswith (c # cs) p" using eq by (simp add: py_startswith_def)
      then show ?thesis by simp
    next
      case (Cons a pre')
      then have "cs = pre' @ p @ post" using eq by simp
      then show ?thesis using Cons.IH by auto
    qed
  qed
qed

lemma py_in_refl: "py_in p p"
  unfolding py_in_iff by (metis append_Nil append_Nil2)

lemma py_in_Nil: "py_in [] s"
  unfolding py_in_iff by (metis append_Nil)

section \<open>Properties: quality labels\<close>

text \<open>The first run of digits of a label decides its rank, whatever surrounds it.\<close>

lemma parse_quality_digit_run:
  assumes "\<forall>c \<in> set pre. \<not> is_digit c" "ds \<noteq> []" "\<forall>c \<in> set ds. is_digit c"
    "post = [] \<or> \<not> is_digit (hd post)"
  shows "parse_quality_from_string (pre @ ds @ post) = py_int ds"
proof -
  have "dropWhile (\<lambda>c. \<not> is_digit c) (pre @ ds @ post) = ds @ post"
    using assms(1,2,3) by (cases ds) (auto simp: dropWhile_append3 dropWhile_append2)
  moreover have "takeWhile is_digit (ds @ post) = ds"
    using assms(3,4) by (cases post) (auto simp: takeWhile_append2)
  ultimately show ?thesis using assms(2)
    by (simp add: parse_quality_from_string_def re_search_digits_def)
qed

lemma py_int_snoc: "py_int (ds @ [c]) = 10 * py_int ds + digit_value c"
  by (simp add: py_int_def)


lemma parse_quality_no_digits:
  "\<forall>c \<in> set label. \<not> is_digit c \<Longrightarrow>
   parse_quality_from_string label = scan_quality_map quality_map (py_lower label)"
proof -
  assume "\<forall>c \<in> set label. \<not> is_digit c"
  then have d: "dropWhile (\<lambda>c. \<not> is_digit c) label = []" by simp
  show ?thesis unfolding parse_quality_from_string_def re_search_digits_def d by simp
qed

lemma parse_quality_mystery: "parse_quality_from_string ''mystery'' = 0"
  by code_simp

text \<open>On a label without digits the key \<open>hd\<close> is tested first, so every label that
  contains it has rank 720: the entries \<open>fhd\<close>, \<open>qhd\<close> and \<open>uhd\<close> of the table are never
  reached.\<close>

lemma parse_quality_hd_first:
  "\<forall>c \<in> set label. \<not> is_digit c \<Longrightarrow> py_in ''hd'' (py_lower label) \<Longrightarrow>
   parse_quality_from_string label = 720"
  by (simp add: parse_quality_no_digits quality_map_def)

text \<open>
  Claim C3. The rank of a label is the number of its first digit run, and an unknown
  label without digits has rank 0 (the lemmas above). The table gives \<open>fhd\<close> the rank
  1080, but the scan tests \<open>hd\<close> first, which \<open>fhd\<close> contains: the rank of \<open>FHD\<close> is
  720 and differs from the rank of \<open>1080p\<close>.
\<close>

theorem parse_quality_FHD:
  "parse_quality_from_string ''FHD'' = 720 \<and> parse_quality_from_string ''1080p'' = 1080"
  by code_simp

section \<open>Properties: the best quality\<close>

lemma insort_key_map:
  "insort_key f (g x) (map g ys) = map g (insort_key (\<lambda>y. f (g y)) x ys)"
  by (induction ys) auto

lemma sort_key_map:
  "sort_key f (map g xs) = map g (sort_key (\<lambda>y. f (g y)) xs)"
  by (induction xs) (auto simp: insort_key_map)

lemma last_insort_key:
  "sorted (map f ys) \<Longrightarrow>
   last (insort_key f x ys) = (if ys = [] \<or> f (last ys) < f x then x else last ys)"
proof (induction ys)
  case Nil
  then show ?case by simp
next
  case (Cons y ys)
  show ?case
  proof (cases "f x \<le> f y")
    case True
    have "f y \<le> f (last (y # ys))"
      using Cons.prems by (cases ys) (auto simp: last_in_set)
    with True show ?thesis by auto
  next
    case False
    have "insort_key f x ys \<noteq> []" by (cases ys) auto
    with False Cons show ?thesis by auto
  qed
qed

lemma last_sort_key_split:
  "ys \<noteq> [] \<Longrightarrow>
   \<exists>a x b. ys = a @ [x] @ b \<and> last (sort_key f ys) = x \<and>
     (\<forall>z \<in> set a. f z \<le> f x) \<and> (\<forall>z \<in> set b. f z < f x)"
proof (induction ys)
  case Nil
  then show ?case by simp
next
  case (Cons y ys)
  show ?case
  proof (cases "ys = []")
    case True
    then have "y # ys = [] @ [y] @ [] \<and> last (sort_key f (y # ys)) = y" by simp
    then show ?thesis by (metis empty_iff empty_set)
  next
    case False
    then obtain a x b where s: "ys = a @ [x] @ b" "last (sort_key f ys) = x"
      "\<forall>z \<in> set a. f z \<le> f x" "\<forall>z \<in> set b. f z < f x"
      using Cons.IH by blast
    have ne: "sort_key f ys \<noteq> []" using False by (metis length_0_conv length_sort)
    have l: "last (sort_key f (y # ys)) = (if f x < f y then y else x)"
      using last_insort_key[of f "sort_key f ys" y] ne s(2) by simp
    show ?thesis
    proof (cases "f x < f y")
      case True
      have "\<forall>z \<in> set ys. f z < f y" using s True by fastforce
      moreover have "y # ys = [] @ [y] @ ys" by simp
      moreover have "last (sort_key f (y # ys)) = y" using l True by simp
      ultimately show ?thesis by (metis empty_iff empty_set)
    next
      case False
      have "y # ys = (y # a) @ [x] @ b" using s(1) by simp
      moreover have "last (sort_key f (y # ys)) = x" using l False by simp
      moreover have "\<forall>z \<in> set (y # a). f z \<le> f x" using s(3) False by auto
      ultimately show ?thesis using s(4) by blast
    qed
  qed
qed

lemma hd_py_sorted_reverse:
  assumes "xs \<noteq> []"
  shows "\<exists>pre x post. xs = pre @ [x] @ post \<and> hd (py_sorted_reverse key xs) = x \<and>
     (\<forall>z \<in> set pre. key z < key x) \<and> (\<forall>z \<in> set post. key z \<le> key x)"
proof -
  have "rev xs \<noteq> []" using assms by simp
  then obtain a x b where s: "rev xs = a @ [x] @ b" "last (sort_key key (rev xs)) = x"
      "\<forall>z \<in> set a. key z \<le> key x" "\<forall>z \<in> set b. key z < key x"
    using last_sort_key_split[of "rev xs" key] by blast
  have ne: "sort_key key (rev xs) \<noteq> []"
    using assms by (metis length_0_conv length_sort rev_is_Nil_conv)
  have "rev (rev xs) = rev (a @ [x] @ b)" using s(1) by simp
  then have "xs = rev b @ [x] @ rev a" by simp
  moreover have "hd (py_sorted_reverse key xs) = x"
    using s(2) ne by (simp add: py_sorted_reverse_def hd_rev)
  ultimately show ?thesis using s(3,4) by (metis set_rev)
qed

lemma sort_qualities_eq:
  "sort_qualities qs = py_sorted_reverse parse_quality_from_string qs"
  by (simp add: sort_qualities_def py_sorted_reverse_def rev_map sort_key_map o_def)

lemma sort_qualities_Nil_iff: "sort_qualities qs = [] \<longleftrightarrow> qs = []"
  by (simp add: sort_qualities_eq py_sorted_reverse_def) (metis length_0_conv length_sort rev_is_Nil_conv)

lemma get_best_quality_empty:
  "download_links vi = [] \<Longrightarrow> get_best_quality vi = Inl VideoInfoError"
  by (simp add: get_best_quality_def)

lemma get_best_quality_nonempty:
  assumes ne: "download_links vi \<noteq> []" and d: "distinct (map fst (download_links vi))"
  shows "\<exists>pre q u post. get_best_quality vi = Inr (q, u) \<and>
           download_links vi = pre @ [(q, u)] @ post \<and>
           (\<forall>z \<in> set pre. parse_quality_from_string (fst z) < parse_quality_from_string q) \<and>
           (\<forall>z \<in> set post. parse_quality_from_string (fst z) \<le> parse_quality_from_string q)"
proof -
  let ?rank = "\<lambda>z. parse_quality_from_string (fst z)"
  let ?ls = "download_links vi"
  obtain pre x post where s: "?ls = pre @ [x] @ post" "hd (py_sorted_reverse ?rank ?ls) = x"
      "\<forall>z \<in> set pre. ?rank z < ?rank x" "\<forall>z \<in> set post. ?rank z \<le> ?rank x"
    using hd_py_sorted_reverse[OF ne, of ?rank] by blast
  obtain q u where x: "x = (q, u)" by (cases x)
  have sq: "sort_qualities (map fst ?ls) = map fst (py_sorted_reverse ?rank ?ls)"
    by (simp add: sort_qualities_eq py_sorted_reverse_def rev_map sort_key_map)
  have ne': "py_sorted_reverse ?rank ?ls \<noteq> []"
    using ne by (simp add: py_sorted_reverse_def) (metis length_0_conv length_sort rev_is_Nil_conv)
  then obtain y ys where c: "py_sorted_reverse ?rank ?ls = y # ys" by (cases "py_sorted_reverse ?rank ?ls") auto
  have y: "y = (q, u)" using s(2) c x by simp
  have "(q, u) \<in> set ?ls" using s(1) x by simp
  then have m: "map_of ?ls q = Some u" using d by simp
  have "get_best_quality vi = Inr (q, u)"
    using ne sq c y m by (simp add: get_best_quality_def dict_get_def)
  then show ?thesis using s x by auto
qed

text \<open>
  Claim C4. On the empty map \<open>get_best_quality\<close> fails with \<open>VideoInfoError\<close>. On a
  non-empty map (a dict: its labels are distinct) it returns an entry \<open>(q, u)\<close> of the map
  such that every entry before it has a strictly smaller rank and every entry after it
  has a rank that is not greater: the first entry of maximal rank in iteration order.
\<close>

theorem get_best_quality_first_max:
  "(download_links vi = [] \<longrightarrow> get_best_quality vi = Inl VideoInfoError) \<and>
   (download_links vi \<noteq> [] \<and> distinct (map fst (download_links vi)) \<longrightarrow>
      (\<exists>pre q u post. get_best_quality vi = Inr (q, u) \<and>
         download_links vi = pre @ [(q, u)] @ post \<and>
         (\<forall>z \<in> set pre. parse_quality_from_string (fst z) < parse_quality_from_string q) \<and>
         (\<forall>z \<in> set post. parse_quality_from_string (fst z) \<le> parse_quality_from_string q)))"
  using get_best_quality_empty get_best_quality_nonempty by blast

theorem get_best_quality_first_max_witness:
  "get_best_quality links_none = Inl VideoInfoError \<and>
   download_links links_tie \<noteq> [] \<and> distinct (map fst (download_links links_tie)) \<and>
   (\<exists>pre q u post. get_best_quality links_tie = Inr (q, u) \<and>
      download_links links_tie = pre @ [(q, u)] @ post \<and>
      (\<forall>z \<in> set pre. parse_quality_from_string (fst z) < parse_quality_from_string q) \<and>
      (\<forall>z \<in> set post. parse_quality_from_string (fst z) \<le> parse_quality_from_string q)) \<and>
   get_best_quality links_tie = Inr (''hd'', ''a'')"
proof -
  have e: "download_links links_none = []" by (simp add: links_none_def)
  have n1: "download_links links_tie \<noteq> []" by (simp add: links_tie_def)
  have n2: "distinct (map fst (download_links links_tie))" by (simp add: links_tie_def)
  have v: "get_best_quality links_tie = Inr (''hd'', ''a'')" by code_simp
  have a: "get_best_quality links_none = Inl VideoInfoError"
    using get_best_quality_first_max[of links_none, THEN conjunct1] e by (rule mp)
  have b: "\<exists>pre q u post. get_best_quality links_tie = Inr (q, u) \<and>
      download_links links_tie = pre @ [(q, u)] @ post \<and>
      (\<forall>z \<in> set pre. parse_quality_from_string (fst z) < parse_quality_from_string q) \<and>
      (\<forall>z \<in> set post. parse_quality_from_string (fst z) \<le> parse_quality_from_string q)"
    using get_best_quality_first_max[of links_tie, THEN conjunct2] conjI[OF n1 n2] by (rule mp)
  show ?thesis by (intro conjI) (rule a n1 n2 b v)+
qed

section \<open>Properties: quality selection\<close>

lemma first_containing_None:
  "first_containing p ls = None \<longleftrightarrow> (\<forall>z \<in> set ls. \<not> py_in p (fst z))"
  by (induction p ls rule: first_containing.induct) auto

lemma first_containing_Some:
  "first_containing p ls = Some r \<Longrightarrow>
   \<exists>pre post. ls = pre @ [r] @ post \<and> py_in p (fst r) \<and> (\<forall>z \<in> set pre. \<not> py_in p (fst z))"
proof (induction p ls rule: first_containing.induct)
  case (1 p)
  then show ?case by simp
next
  case (2 p quality u rest)
  show ?case
  proof (cases "py_in p quality")
    case True
    then have "r = (quality, u)" using "2.prems" by simp
    then have "(quality, u) # rest = [] @ [r] @ rest \<and> py_in p (fst r)" using True by simp
    then show ?thesis by (metis empty_iff empty_set)
  next
    case False
    then have "first_containing p rest = Some r" using "2.prems" by simp
    then obtain pre post where s: "rest = pre @ [r] @ post" "py_in p (fst r)"
        "\<forall>z \<in> set pre. \<not> py_in p (fst z)"
      using "2.IH" False by blast
    have "(quality, u) # rest = ((quality, u) # pre) @ [r] @ post" using s(1) by simp
    moreover have "\<forall>z \<in> set ((quality, u) # pre). \<not> py_in p (fst z)" using s(3) False by simp
    ultimately show ?thesis using s(2) by blast
  qed
qed

lemma select_quality_absent:
  "preferred = None \<or> preferred = Some [] \<Longrightarrow>
   select_quality vi preferred = get_best_quality vi"
  by (auto simp: select_quality_def truthy_def)

lemma select_quality_exact:
  assumes "p \<noteq> []" "p \<in> fst ` set (download_links vi)"
  shows "\<exists>u. map_of (download_links vi) p = Some u \<and> select_quality vi (Some p) = Inr (p, u)"
proof -
  obtain u where "map_of (download_links vi) p = Some u"
    using assms(2) by (metis domD dom_map_of_conv_image_fst)
  then show ?thesis using assms by (simp add: select_quality_def truthy_def dict_get_def)
qed

lemma select_quality_substring:
  assumes "p \<noteq> []" "p \<notin> fst ` set (download_links vi)"
    "\<exists>z \<in> set (download_links vi). py_in p (fst z)"
  shows "\<exists>pre q u post. download_links vi = pre @ [(q, u)] @ post \<and> py_in p q \<and>
           (\<forall>z \<in> set pre. \<not> py_in p (fst z)) \<and> select_quality vi (Some p) = Inr (q, u)"
proof -
  obtain r where r: "first_containing p (download_links vi) = Some r"
    using assms(3) first_containing_None[of p "download_links vi"] by (metis not_Some_eq)
  obtain q u where qu: "r = (q, u)" by (cases r)
  have "select_quality vi (Some p) = Inr (q, u)"
    using assms(1,2) r qu by (simp add: select_quality_def truthy_def)
  then show ?thesis using first_containing_Some[OF r] qu by auto
qed

lemma select_quality_fallback:
  assumes "p \<noteq> []" "\<forall>z \<in> set (download_links vi). \<not> py_in p (fst z)"
  shows "select_quality vi (Some p) = get_best_quality vi"
proof -
  have "p \<notin> fst ` set (download_links vi)" using assms(2) py_in_refl by fastforce
  moreover have "first_containing p (download_links vi) = None"
    using assms(2) by (simp add: first_containing_None)
  ultimately show ?thesis using assms(1) by (simp add: select_quality_def truthy_def)
qed

lemma select_quality_empty:
  "download_links vi = [] \<Longrightarrow> select_quality vi preferred = Inl VideoInfoError"
  by (simp add: select_quality_def get_best_quality_def)

lemma select_quality_720:
  "select_quality links_720_1080 (Some ''720'') = Inr (''720p'', ''a'')"
  by (simp add: select_quality_def links_720_1080_def truthy_def py_startswith_def)

text \<open>
  Claim C5, as stated, fails for the empty preferred string: every label contains it, so
  the claim makes \<open>select\<close> return the first entry of the map, but the code tests
  \<open>if preferred_quality:\<close> first, which is false for the empty string, and returns the
  best entry.
\<close>

theorem select_quality_empty_preferred_counterexample:
  "'''' \<notin> fst ` set (download_links links_720_1080) \<and>
   download_links links_720_1080 = [] @ [(''720p'', ''a'')] @ [(''1080p'', ''b'')] \<and>
   py_in '''' ''720p'' \<and>
   select_quality links_720_1080 (Some '''') = Inr (''1080p'', ''b'')"
  by code_simp

text \<open>
  Claim C5, amended. For a non-empty preferred label \<open>p\<close>: when \<open>p\<close> is a label of the
  map, \<open>select\<close> returns that entry; otherwise, when some label contains \<open>p\<close>, it returns
  the first entry in iteration order whose label contains \<open>p\<close>; otherwise it returns what
  \<open>best\<close> returns. An absent or empty preferred label gives what \<open>best\<close> returns. On the
  empty map \<open>select\<close> fails with \<open>VideoInfoError\<close> for every preferred value, and on
  \<open>{"720p": "a", "1080p": "b"}\<close> with preferred \<open>"720"\<close> it returns \<open>("720p", "a")\<close>.
\<close>

theorem select_quality_policy:
  "(p \<noteq> [] \<and> p \<in> fst ` set (download_links vi) \<longrightarrow>
      (\<exists>u. map_of (download_links vi) p = Some u \<and> select_quality vi (Some p) = Inr (p, u))) \<and>
   (p \<noteq> [] \<and> p \<notin> fst ` set (download_links vi) \<and>
    (\<exists>z \<in> set (download_links vi). py_in p (fst z)) \<longrightarrow>
      (\<exists>pre q u post. download_links vi = pre @ [(q, u)] @ post \<and> py_in p q \<and>
         (\<forall>z \<in> set pre. \<not> py_in p (fst z)) \<and> select_quality vi (Some p) = Inr (q, u))) \<and>
   (p \<noteq> [] \<and> (\<forall>z \<in> set (download_links vi). \<not> py_in p (fst z)) \<longrightarrow>
      select_quality vi (Some p) = get_best_quality vi) \<and>
   (preferred = None \<or> preferred = Some [] \<longrightarrow>
      select_quality vi preferred = get_best_quality vi) \<and>
   (download_links vi = [] \<longrightarrow> select_quality vi preferred = Inl VideoInfoError) \<and>
   select_quality links_720_1080 (Some ''720'') = Inr (''720p'', ''a'')"
  using select_quality_exact[of p vi] select_quality_substring[of p vi]
    select_quality_fallback[of p vi] select_quality_absent[of preferred vi]
    select_quality_empty[of vi preferred] select_quality_720
  by blast

theorem select_quality_policy_witness:
  "(\<exists>u. map_of (download_links links_720_1080) ''1080p'' = Some u \<and>
      select_quality links_720_1080 (Some ''1080p'') = Inr (''1080p'', u)) \<and>
   (\<exists>pre q u post. download_links links_720_1080 = pre @ [(q, u)] @ post \<and> py_in ''80'' q \<and>
      (\<forall>z \<in> set pre. \<not> py_in ''80'' (fst z)) \<and>
      select_quality links_720_1080 (Some ''80'') = Inr (q, u)) \<and>
   select_quality links_720_1080 (Some ''480'') = get_best_quality links_720_1080 \<and>
   select_quality links_720_1080 None = get_best_quality links_720_1080 \<and>
   select_quality links_none (Some ''720'') = Inl VideoInfoError"
proof -
  note pol = select_quality_policy
  have h1: "''1080p'' \<noteq> [] \<and> ''1080p'' \<in> fst ` set (download_links links_720_1080)"
    by (simp add: links_720_1080_def)
  have h2: "''80'' \<noteq> [] \<and> ''80'' \<notin> fst ` set (download_links links_720_1080) \<and>
            (\<exists>z \<in> set (download_links links_720_1080). py_in ''80'' (fst z))"
    by (simp add: links_720_1080_def py_startswith_def)
  have h3: "''480'' \<noteq> [] \<and> (\<forall>z \<in> set (download_links links_720_1080). \<not> py_in ''480'' (fst z))"
    by (simp add: links_720_1080_def py_startswith_def)
  have h4: "None = (None :: string option) \<or> None = Some []" by simp
  have h5: "download_links links_none = []" by (simp add: links_none_def)
  have c1: "\<exists>u. map_of (download_links links_720_1080) ''1080p'' = Some u \<and>
      select_quality links_720_1080 (Some ''1080p'') = Inr (''1080p'', u)"
    using pol[of "''1080p''" links_720_1080 None, THEN conjunct1] h1 by (rule mp)
  have c2: "\<exists>pre q u post. download_links links_720_1080 = pre @ [(q, u)] @ post \<and>
      py_in ''80'' q \<and> (\<forall>z \<in> set pre. \<not> py_in ''80'' (fst z)) \<and>
      select_quality links_720_1080 (Some ''80'') = Inr (q, u)"
    using pol[of "''80''" links_720_1080 None, THEN conjunct2, THEN conjunct1] h2 by (rule mp)
  have c3: "select_quality links_720_1080 (Some ''480'') = get_best_quality links_720_1080"
    using pol[of "''480''" links_720_1080 None, THEN conjunct2, THEN conjunct2, THEN conjunct1] h3
    by (rule mp)
  have c4: "select_quality links_720_1080 None = get_best_quality links_720_1080"
    using pol[of "''480''" links_720_1080 None, THEN conjunct2, THEN conjunct2, THEN conjunct2,
        THEN conjunct1] h4
    by (rule mp)
  have c5: "select_quality links_none (Some ''720'') = Inl VideoInfoError"
    using pol[of "''720''" links_none "Some ''720''", THEN conjunct2, THEN conjunct2,
        THEN conjunct2, THEN conjunct2, THEN conjunct1] h5
    by (rule mp)
  show ?thesis by (intro conjI) (rule c1 c2 c3 c4 c5)+
qed

section \<open>Properties: authentication\<close>

text \<open>
  Claim C6. From a state that is not logged in, when the token is obtained and the login
  request returns a body: \<open>login\<close> returns \<open>True\<close> and records the user exactly when the
  lower-cased body contains \<open>premium\<close> and the lower-cased user name; otherwise it returns
  \<open>False\<close>, raises nothing and leaves the state as it was.
\<close>

theorem login_success_condition:
  assumes "\<not> logged_in s" "get_csrf_token w = Inr token"
    "post_login w user password token = Inr body"
  shows "login w s user password =
     (if py_in ''premium'' (py_lower body) \<and> py_in (py_lower user) (py_lower body)
      then (Inr True, s\<lparr>logged_in := True, username := Some user\<rparr>)
      else (Inr False, s))"
  using assms by (simp add: login_def)

theorem login_success_condition_witness:
  "\<not> logged_in AuthService_init \<and> get_csrf_token site_fixture = Inr ''tok'' \<and>
   post_login site_fixture ''Bob'' ''pw'' ''tok'' = Inr ''Witaj w CDA Premium, BOB'' \<and>
   login site_fixture AuthService_init ''Bob'' ''pw'' =
     (Inr True, \<lparr>logged_in = True, username = Some ''Bob''\<rparr>) \<and>
   post_login site_fixture ''eve'' ''pw'' ''tok'' = Inr ''Witaj w CDA Premium, BOB'' \<and>
   login site_fixture AuthService_init ''eve'' ''pw'' = (Inr False, AuthService_init) \<and>
   get_csrf_token site_jozef = Inr ''tok'' \<and>
   post_login site_jozef user_jozef ''pw'' ''tok'' =
     Inr (''Konto premium: J'' @ [CHR 0xF3] @ ''zef'') \<and>
   login site_jozef AuthService_init user_jozef ''pw'' =
     (Inr True, \<lparr>logged_in = True, username = Some user_jozef\<rparr>)"
proof -
  have a: "\<not> logged_in AuthService_init" by (simp add: AuthService_init_def)
  have t: "get_csrf_token site_fixture = Inr ''tok''" by (simp add: site_fixture_def)
  have p1: "post_login site_fixture ''Bob'' ''pw'' ''tok'' = Inr ''Witaj w CDA Premium, BOB''"
    by (simp add: site_fixture_def)
  have p2: "post_login site_fixture ''eve'' ''pw'' ''tok'' = Inr ''Witaj w CDA Premium, BOB''"
    by (simp add: site_fixture_def)
  have c1: "py_in ''premium'' (py_lower ''Witaj w CDA Premium, BOB'') \<and>
            py_in (py_lower ''Bob'') (py_lower ''Witaj w CDA Premium, BOB'')"
    by code_simp
  have c2: "\<not> py_in (py_lower ''eve'') (py_lower ''Witaj w CDA Premium, BOB'')"
    by code_simp
  have r1: "login site_fixture AuthService_init ''Bob'' ''pw'' =
     (Inr True, \<lparr>logged_in = True, username = Some ''Bob''\<rparr>)"
    using login_success_condition[OF a t p1] c1 by (simp add: AuthService_init_def)
  have r2: "login site_fixture AuthService_init ''eve'' ''pw'' = (Inr False, AuthService_init)"
    using login_success_condition[OF a t p2] c2 by simp
  have t3: "get_csrf_token site_jozef = Inr ''tok''"
    by (simp add: site_jozef_def site_fixture_def)
  have p3: "post_login site_jozef user_jozef ''pw'' ''tok'' =
      Inr (''Konto premium: J'' @ [CHR 0xF3] @ ''zef'')"
    by (simp add: site_jozef_def)
  have c3: "py_in ''premium'' (py_lower (''Konto premium: J'' @ [CHR 0xF3] @ ''zef'')) \<and>
            py_in (py_lower user_jozef) (py_lower (''Konto premium: J'' @ [CHR 0xF3] @ ''zef''))"
    by code_simp
  have r3: "login site_jozef AuthService_init user_jozef ''pw'' =
     (Inr True, \<lparr>logged_in = True, username = Some user_jozef\<rparr>)"
    using login_success_condition[OF a t3 p3] c3 by (simp add: AuthService_init_def)
  show ?thesis by (intro conjI) (rule a t p1 r1 p2 r2 t3 p3 r3)+
qed

text \<open>
  Claim C9. When \<open>logout\<close> is called while logged in and the logout request fails with a
  transport error, it returns \<open>False\<close> and the state is the one before the call.
\<close>

theorem logout_transport_error:
  assumes "logged_in s" "get_logout w = Inl RequestException"
  shows "logout w s = (Inr False, s)"
  using assms by (simp add: logout_def)

theorem logout_transport_error_witness:
  "logged_in bob \<and> get_logout site_logout_down = Inl RequestException \<and>
   logout site_logout_down bob = (Inr False, \<lparr>logged_in = True, username = Some ''bob''\<rparr>)"
proof -
  have a: "logged_in bob" by (simp add: bob_def)
  have g: "get_logout site_logout_down = Inl RequestException"
    by (simp add: site_logout_down_def)
  have "logout site_logout_down bob = (Inr False, bob)"
    using logout_transport_error[OF a g] .
  then have r: "logout site_logout_down bob =
      (Inr False, \<lparr>logged_in = True, username = Some ''bob''\<rparr>)"
    by (simp add: bob_def)
  show ?thesis by (intro conjI) (rule a g r)+
qed

text \<open>
  Claim C10. When \<open>login\<close> is called while logged in, it returns \<open>True\<close> for every user
  name and password, whatever the site would answer, and the state is the one before
  the call.
\<close>

theorem login_when_logged_in:
  assumes "logged_in s"
  shows "login w s user password = (Inr True, s)"
  using assms by (simp add: login_def)

theorem login_when_logged_in_witness:
  "logged_in bob \<and>
   login site_folder_down bob ''eve'' ''other'' =
     (Inr True, \<lparr>logged_in = True, username = Some ''bob''\<rparr>)"
proof -
  have a: "logged_in bob" by (simp add: bob_def)
  have "login site_folder_down bob ''eve'' ''other'' = (Inr True, bob)"
    using login_when_logged_in[OF a] .
  then have r: "login site_folder_down bob ''eve'' ''other'' =
      (Inr True, \<lparr>logged_in = True, username = Some ''bob''\<rparr>)"
    by (simp add: bob_def)
  show ?thesis by (intro conjI) (rule a r)+
qed

lemma logout_success:
  "logged_in s \<Longrightarrow> get_logout w = Inr () \<Longrightarrow>
   logout w s = (Inr True, \<lparr>logged_in = False, username = None\<rparr>)"
  by (simp add: logout_def)

lemma logout_when_anonymous: "\<not> logged_in s \<Longrightarrow> logout w s = (Inr True, s)"
  by (simp add: logout_def)

lemma login_token_error:
  "\<not> logged_in s \<Longrightarrow> get_csrf_token w = Inl TokenError \<Longrightarrow>
   login w s user password = (Inl TokenError, s)"
  by (simp add: login_def)

lemma login_transport_error:
  "\<not> logged_in s \<Longrightarrow> get_csrf_token w = Inr token \<Longrightarrow>
   post_login w user password token = Inl RequestException \<Longrightarrow>
   login w s user password = (Inl AuthenticationError, s)"
  by (simp add: login_def)

section \<open>Properties: listing pages\<close>

lemma parse_loop_acc: "parse_loop es acc = acc @ List.map_filter parse_element es"
  by (induction es arbitrary: acc) (auto simp: List.map_filter_simps split: option.splits)

lemma length_map_filter:
  "length (List.map_filter f xs) = length (filter (\<lambda>x. f x \<noteq> None) xs)"
  by (induction xs) (auto simp: List.map_filter_simps split: option.splits)

lemma parse_element_Some_iff:
  "parse_element e \<noteq> None \<longleftrightarrow> title_element e \<noteq> None \<and> url_element e \<noteq> None"
  by (auto simp: parse_element_def Let_def split: option.splits)

lemma title_element_order:
  "title_element e =
     (case a_link_title e of
        Some t \<Rightarrow> Some t
      | None \<Rightarrow> (case span_title e of Some t \<Rightarrow> Some t | None \<Rightarrow> text_container_h3 e))"
  by (simp add: title_element_def tag_or_def)

lemma url_element_order:
  "url_element e =
     (case a_link_title e of
        Some t \<Rightarrow> Some t
      | None \<Rightarrow> (case a_thumbnail e of Some t \<Rightarrow> Some t | None \<Rightarrow> a_link e))"
  by (simp add: url_element_def tag_or_def)

lemma parse_element_record:
  assumes "parse_element e = Some r"
  shows "\<exists>t u. title_element e = Some t \<and> url_element e = Some u \<and>
     r = \<lparr>title = py_strip (tag_text t),
          url = (case tag_get u ''href'' of
                   None \<Rightarrow> None
                 | Some h \<Rightarrow> if h \<noteq> [] \<and> \<not> py_startswith h ''http''
                             then Some (''https://www.cda.pl'' @ h) else Some h),
          thumbnail = (case img e of
                         None \<Rightarrow> None
                       | Some i \<Rightarrow>
                           (case tag_get i ''src'' of
                              None \<Rightarrow> tag_get i ''data-src''
                            | Some s \<Rightarrow> if s \<noteq> [] then Some s else tag_get i ''data-src'')),
          duration = map_option (\<lambda>x. py_strip (tag_text x)) (duration_tag e),
          author = map_option (\<lambda>x. py_strip (tag_text x)) (user_name_tag e),
          views = map_option (\<lambda>x. py_strip (tag_text x)) (views_tag e),
          premium = (premium_icon e \<noteq> None)\<rparr>"
proof -
  obtain t where t: "title_element e = Some t"
    using assms by (cases "title_element e") (auto simp: parse_element_def)
  obtain u where u: "url_element e = Some u"
    using assms t by (cases "url_element e") (auto simp: parse_element_def)
  have url: "(if truthy (tag_get u ''href'') \<and> \<not> py_startswith (the (tag_get u ''href'')) ''http''
              then Some (base_url @ the (tag_get u ''href'')) else tag_get u ''href'') =
             (case tag_get u ''href'' of
                None \<Rightarrow> None
              | Some h \<Rightarrow> if h \<noteq> [] \<and> \<not> py_startswith h ''http''
                          then Some (''https://www.cda.pl'' @ h) else Some h)"
    by (cases "tag_get u ''href''") (simp_all add: truthy_def base_url_def)
  have th: "(case img e of None \<Rightarrow> None
             | Some i \<Rightarrow> str_or (tag_get i ''src'') (tag_get i ''data-src'')) =
            (case img e of
               None \<Rightarrow> None
             | Some i \<Rightarrow>
                 (case tag_get i ''src'' of
                    None \<Rightarrow> tag_get i ''data-src''
                  | Some s \<Rightarrow> if s \<noteq> [] then Some s else tag_get i ''data-src''))"
    by (simp add: str_or_def truthy_def split: option.splits)
  have "parse_element e =
     Some \<lparr>title = py_strip (tag_text t),
           url = (if truthy (tag_get u ''href'') \<and> \<not> py_startswith (the (tag_get u ''href'')) ''http''
                  then Some (base_url @ the (tag_get u ''href'')) else tag_get u ''href''),
           thumbnail = (case img e of None \<Rightarrow> None
                        | Some i \<Rightarrow> str_or (tag_get i ''src'') (tag_get i ''data-src'')),
           duration = stripped_text (duration_tag e),
           author = stripped_text (user_name_tag e),
           views = stripped_text (views_tag e),
           premium = (premium_icon e \<noteq> None)\<rparr>"
    using t u by (simp add: parse_element_def Let_def)
  then have "r = \<lparr>title = py_strip (tag_text t),
          url = (case tag_get u ''href'' of
                   None \<Rightarrow> None
                 | Some h \<Rightarrow> if h \<noteq> [] \<and> \<not> py_startswith h ''http''
                             then Some (''https://www.cda.pl'' @ h) else Some h),
          thumbnail = (case img e of
                         None \<Rightarrow> None
                       | Some i \<Rightarrow>
                           (case tag_get i ''src'' of
                              None \<Rightarrow> tag_get i ''data-src''
                            | Some s \<Rightarrow> if s \<noteq> [] then Some s else tag_get i ''data-src'')),
          duration = map_option (\<lambda>x. py_strip (tag_text x)) (duration_tag e),
          author = map_option (\<lambda>x. py_strip (tag_text x)) (user_name_tag e),
          views = map_option (\<lambda>x. py_strip (tag_text x)) (views_tag e),
          premium = (premium_icon e \<noteq> None)\<rparr>"
    using assms unfolding url th stripped_text_def by simp
  then show ?thesis using t u by blast
qed

lemma parse_search_results_ok:
  assumes "login_required page = None"
  shows "\<exists>rs. parse_search_results page = Inr rs \<and>
           rs = List.map_filter parse_element (video_elements page) \<and>
           length rs = length (filter (\<lambda>e. title_element e \<noteq> None \<and> url_element e \<noteq> None)
                                 (video_elements page))"
proof -
  have f: "(\<lambda>x. parse_element x \<noteq> None) =
           (\<lambda>e. title_element e \<noteq> None \<and> url_element e \<noteq> None)"
    by (rule ext) (rule parse_element_Some_iff)
  have l: "length (List.map_filter parse_element (video_elements page)) =
           length (filter (\<lambda>e. title_element e \<noteq> None \<and> url_element e \<noteq> None)
                     (video_elements page))"
    unfolding length_map_filter f ..
  have "parse_search_results page = Inr (List.map_filter parse_element (video_elements page))"
    using assms by (simp add: parse_search_results_def parse_loop_acc)
  then show ?thesis using l by blast
qed

lemma parse_search_results_walled:
  "login_required page \<noteq> None \<Longrightarrow> parse_search_results page = Inl AuthenticationError"
  by (simp add: parse_search_results_def)

text \<open>\<open>str.strip\<close> removes the white space at both ends and nothing else.\<close>

lemma last_dropWhile_nonempty: "dropWhile P xs \<noteq> [] \<Longrightarrow> last (dropWhile P xs) = last xs"
  by (induction xs) (auto split: if_splits)

lemma strip_split:
  "xs = takeWhile P xs @ rev (dropWhile P (rev (dropWhile P xs)))
        @ rev (takeWhile P (rev (dropWhile P xs)))"
proof -
  have "rev (takeWhile P (rev (dropWhile P xs)) @ dropWhile P (rev (dropWhile P xs))) =
        dropWhile P xs"
    by (simp only: takeWhile_dropWhile_id rev_rev_ident)
  then have "rev (dropWhile P (rev (dropWhile P xs))) @ rev (takeWhile P (rev (dropWhile P xs))) =
        dropWhile P xs"
    by (simp only: rev_append)
  then show ?thesis by (simp only: takeWhile_dropWhile_id)
qed

lemma strip_ends:
  assumes "rev (dropWhile P (rev (dropWhile P xs))) \<noteq> []"
  shows "\<not> P (hd (rev (dropWhile P (rev (dropWhile P xs))))) \<and>
         \<not> P (last (rev (dropWhile P (rev (dropWhile P xs)))))"
proof -
  have b: "dropWhile P (rev (dropWhile P xs)) \<noteq> []" using assms by simp
  have a: "dropWhile P xs \<noteq> []"
  proof
    assume e: "dropWhile P xs = []"
    have "dropWhile P (rev (dropWhile P xs)) = []" unfolding e by simp
    with b show False by simp
  qed
  have "last (rev (dropWhile P (rev (dropWhile P xs)))) = hd (dropWhile P (rev (dropWhile P xs)))"
    using b by (simp add: last_rev)
  moreover have "\<not> P (hd (dropWhile P (rev (dropWhile P xs))))" using b by (rule hd_dropWhile)
  moreover have "hd (rev (dropWhile P (rev (dropWhile P xs)))) = hd (dropWhile P xs)"
  proof -
    have "hd (rev (dropWhile P (rev (dropWhile P xs)))) = last (dropWhile P (rev (dropWhile P xs)))"
      using b by (simp add: hd_rev)
    also have "\<dots> = last (rev (dropWhile P xs))" using b by (rule last_dropWhile_nonempty)
    also have "\<dots> = hd (dropWhile P xs)" using a by (simp add: last_rev)
    finally show ?thesis .
  qed
  moreover have "\<not> P (hd (dropWhile P xs))" using a by (rule hd_dropWhile)
  ultimately show ?thesis by (simp only: simp_thms)
qed

lemma py_strip_ends:
  "py_strip s \<noteq> [] \<Longrightarrow> \<not> is_space (hd (py_strip s)) \<and> \<not> is_space (last (py_strip s))"
  unfolding py_strip_def by (rule strip_ends)

lemma py_strip_middle:
  "\<exists>pre post. s = pre @ py_strip s @ post \<and>
     (\<forall>c \<in> set pre. is_space c) \<and> (\<forall>c \<in> set post. is_space c)"
proof -
  have 1: "s = takeWhile is_space s @ py_strip s
             @ rev (takeWhile is_space (rev (dropWhile is_space s)))"
    unfolding py_strip_def by (rule strip_split)
  have 2: "\<forall>c \<in> set (takeWhile is_space s). is_space c"
    by (rule ballI) (erule set_takeWhileD[THEN conjunct2])
  have 3: "\<forall>c \<in> set (rev (takeWhile is_space (rev (dropWhile is_space s)))). is_space c"
    unfolding set_rev by (rule ballI) (erule set_takeWhileD[THEN conjunct2])
  from 1 2 3 show ?thesis by (rule_tac x = "takeWhile is_space s" in exI,
      rule_tac x = "rev (takeWhile is_space (rev (dropWhile is_space s)))" in exI) (intro conjI)
qed

text \<open>
  Claim C2, as stated, fails: a container whose title resolves (through \<open>span.title\<close>) and
  whose URL does not (it has no link at all) yields no record.
\<close>

theorem parse_title_only_counterexample:
  "login_required page_title_only = None \<and>
   video_elements page_title_only = [item_title_only ''X''] \<and>
   title_element (item_title_only ''X'') = Some (plain ''X'') \<and>
   url_element (item_title_only ''X'') = None \<and>
   parse_search_results page_title_only = Inr []"
  by (simp add: page_title_only_def item_title_only_def element_none_def title_element_def
      url_element_def tag_or_def parse_search_results_def parse_element_def)

text \<open>
  Claim C2, amended. On a listing page without the login-wall marker \<open>parse_listing\<close>
  does not fail, whatever the containers lack, and returns, in page order, one record
  for each container in which both a title element and a URL element are found; a
  container that lacks the title element or the URL element is dropped. The title
  element is the first match of \<open>a.link-title\<close>, \<open>span.title\<close>, \<open>div.text-container h3\<close>,
  the URL element the first match of \<open>a.link-title\<close>, \<open>a.thumbnail\<close>, \<open>a.link\<close>. The
  record's title is the stripped text of the title element; its url is the \<open>href\<close> of
  the URL element, prefixed with \<open>https://www.cda.pl\<close> when it is not empty and does not
  start with \<open>http\<close>, and absent when the URL element has no \<open>href\<close>; its optional fields
  are the first non-empty of the image's \<open>src\<close> and \<open>data-src\<close>, the stripped texts of
  the duration, author and views elements, and the premium flag, set when the premium
  marker is found. On a page with the login-wall marker the parse fails with the
  authentication error.
\<close>

theorem parse_search_results_keeps_complete_items:
  "(login_required page = None \<longrightarrow>
      (\<exists>rs. parse_search_results page = Inr rs \<and>
         rs = List.map_filter parse_element (video_elements page) \<and>
         length rs = length (filter (\<lambda>e. title_element e \<noteq> None \<and> url_element e \<noteq> None)
                               (video_elements page)))) \<and>
   (parse_element e \<noteq> None \<longleftrightarrow> title_element e \<noteq> None \<and> url_element e \<noteq> None) \<and>
   title_element e =
     (case a_link_title e of
        Some t \<Rightarrow> Some t
      | None \<Rightarrow> (case span_title e of Some t \<Rightarrow> Some t | None \<Rightarrow> text_container_h3 e)) \<and>
   url_element e =
     (case a_link_title e of
        Some t \<Rightarrow> Some t
      | None \<Rightarrow> (case a_thumbnail e of Some t \<Rightarrow> Some t | None \<Rightarrow> a_link e)) \<and>
   (parse_element e = Some r \<longrightarrow>
      (\<exists>t u. title_element e = Some t \<and> url_element e = Some u \<and>
         r = \<lparr>title = py_strip (tag_text t),
              url = (case tag_get u ''href'' of
                       None \<Rightarrow> None
                     | Some h \<Rightarrow> if h \<noteq> [] \<and> \<not> py_startswith h ''http''
                                 then Some (''https://www.cda.pl'' @ h) else Some h),
              thumbnail = (case img e of
                             None \<Rightarrow> None
                           | Some i \<Rightarrow>
                               (case tag_get i ''src'' of
                                  None \<Rightarrow> tag_get i ''data-src''
                                | Some s \<Rightarrow> if s \<noteq> [] then Some s else tag_get i ''data-src'')),
              duration = map_option (\<lambda>x. py_strip (tag_text x)) (duration_tag e),
              author = map_option (\<lambda>x. py_strip (tag_text x)) (user_name_tag e),
              views = map_option (\<lambda>x. py_strip (tag_text x)) (views_tag e),
              premium = (premium_icon e \<noteq> None)\<rparr>)) \<and>
   (\<exists>pre post. s = pre @ py_strip s @ post \<and>
      (\<forall>c \<in> set pre. is_space c) \<and> (\<forall>c \<in> set post. is_space c)) \<and>
   (py_strip s \<noteq> [] \<longrightarrow> \<not> is_space (hd (py_strip s)) \<and> \<not> is_space (last (py_strip s))) \<and>
   (is_space c \<longleftrightarrow> of_char c \<in> {9, 10, 11, 12, 13, 28, 29, 30, 31, 32, 133, 160 :: nat}) \<and>
   (login_required page \<noteq> None \<longrightarrow> parse_search_results page = Inl AuthenticationError)"
proof -
  have A: "login_required page = None \<longrightarrow>
      (\<exists>rs. parse_search_results page = Inr rs \<and>
         rs = List.map_filter parse_element (video_elements page) \<and>
         length rs = length (filter (\<lambda>e. title_element e \<noteq> None \<and> url_element e \<noteq> None)
                               (video_elements page)))"
    using parse_search_results_ok by blast
  have E: "parse_element e = Some r \<longrightarrow>
      (\<exists>t u. title_element e = Some t \<and> url_element e = Some u \<and>
         r = \<lparr>title = py_strip (tag_text t),
              url = (case tag_get u ''href'' of
                       None \<Rightarrow> None
                     | Some h \<Rightarrow> if h \<noteq> [] \<and> \<not> py_startswith h ''http''
                                 then Some (''https://www.cda.pl'' @ h) else Some h),
              thumbnail = (case img e of
                             None \<Rightarrow> None
                           | Some i \<Rightarrow>
                               (case tag_get i ''src'' of
                                  None \<Rightarrow> tag_get i ''data-src''
                                | Some s \<Rightarrow> if s \<noteq> [] then Some s else tag_get i ''data-src'')),
              duration = map_option (\<lambda>x. py_strip (tag_text x)) (duration_tag e),
              author = map_option (\<lambda>x. py_strip (tag_text x)) (user_name_tag e),
              views = map_option (\<lambda>x. py_strip (tag_text x)) (views_tag e),
              premium = (premium_icon e \<noteq> None)\<rparr>)"
    by (rule impI) (rule parse_element_record)
  have S2: "py_strip s \<noteq> [] \<longrightarrow> \<not> is_space (hd (py_strip s)) \<and> \<not> is_space (last (py_strip s))"
    by (rule impI) (rule py_strip_ends)
  have W: "is_space c \<longleftrightarrow> of_char c \<in> {9, 10, 11, 12, 13, 28, 29, 30, 31, 32, 133, 160 :: nat}"
    by (simp add: is_space_def)
  have F: "login_required page \<noteq> None \<longrightarrow> parse_search_results page = Inl AuthenticationError"
    by (rule impI) (rule parse_search_results_walled)
  show ?thesis
    by (rule conjI[OF A conjI[OF parse_element_Some_iff conjI[OF title_element_order
          conjI[OF url_element_order conjI[OF E conjI[OF py_strip_middle
          conjI[OF S2 conjI[OF W F]]]]]]]])
qed

theorem parse_search_results_keeps_complete_items_witness:
  "login_required page_mixed = None \<and>
   (\<exists>rs. parse_search_results page_mixed = Inr rs \<and>
      rs = List.map_filter parse_element (video_elements page_mixed) \<and>
      length rs = length (filter (\<lambda>e. title_element e \<noteq> None \<and> url_element e \<noteq> None)
                            (video_elements page_mixed))) \<and>
   video_elements page_mixed = [item_rich, item_title_only ''X'', item_fallbacks, item_no_href] \<and>
   List.map_filter parse_element (video_elements page_mixed) =
     [\<lparr>title = ''Tytul'', url = Some ''https://www.cda.pl/video/t1'',
       thumbnail = Some ''t.jpg'', duration = Some ''01:30'', author = None,
       views = Some ''12 tys.'', premium = True\<rparr>,
      \<lparr>title = ''Drugi'', url = Some ''http://inny.example/v'',
       thumbnail = None, duration = None, author = None, views = None, premium = False\<rparr>,
      \<lparr>title = ''Bez'', url = None,
       thumbnail = None, duration = None, author = None, views = None, premium = False\<rparr>] \<and>
   login_required page_walled \<noteq> None \<and>
   parse_search_results page_walled = Inl AuthenticationError"
proof -
  note main = parse_search_results_keeps_complete_items
  have h1: "login_required page_mixed = None" by (simp add: page_mixed_def)
  have h2: "login_required page_walled \<noteq> None" by (simp add: page_walled_def)
  have c1: "\<exists>rs. parse_search_results page_mixed = Inr rs \<and>
      rs = List.map_filter parse_element (video_elements page_mixed) \<and>
      length rs = length (filter (\<lambda>e. title_element e \<noteq> None \<and> url_element e \<noteq> None)
                            (video_elements page_mixed))"
    using main[of page_mixed element_none undefined undefined undefined, THEN conjunct1] h1
    by (rule mp)
  have c2: "parse_search_results page_walled = Inl AuthenticationError"
    using main[of page_walled element_none undefined undefined undefined, THEN conjunct2,
        THEN conjunct2, THEN conjunct2, THEN conjunct2, THEN conjunct2, THEN conjunct2,
        THEN conjunct2, THEN conjunct2] h2
    by (rule mp)
  have v0: "video_elements page_mixed =
      [item_rich, item_title_only ''X'', item_fallbacks, item_no_href]"
    by (simp add: page_mixed_def)
  have v1: "List.map_filter parse_element (video_elements page_mixed) =
     [\<lparr>title = ''Tytul'', url = Some ''https://www.cda.pl/video/t1'',
       thumbnail = Some ''t.jpg'', duration = Some ''01:30'', author = None,
       views = Some ''12 tys.'', premium = True\<rparr>,
      \<lparr>title = ''Drugi'', url = Some ''http://inny.example/v'',
       thumbnail = None, duration = None, author = None, views = None, premium = False\<rparr>,
      \<lparr>title = ''Bez'', url = None,
       thumbnail = None, duration = None, author = None, views = None, premium = False\<rparr>]"
    by code_simp
  show ?thesis by (intro conjI) (rule h1 c1 v0 v1 h2 c2)+
qed

section \<open>Properties: file names\<close>

lemma set_collapse_whitespace:
  "set (collapse_whitespace s) \<subseteq> {c \<in> set s. \<not> is_space c} \<union> {CHR ''_''}"
proof (induction s rule: collapse_whitespace.induct)
  case 1
  then show ?case by simp
next
  case (2 c cs)
  show ?case
  proof (cases "is_space c")
    case True
    have "set (dropWhile is_space cs) \<subseteq> set cs" by (rule set_dropWhileD[THEN subsetI])
    with 2 True show ?thesis by auto
  next
    case False
    with 2 show ?thesis by auto
  qed
qed

lemma underscore_not_space: "\<not> is_space CHR ''_''"
  by (simp add: is_space_def)

lemma underscore_not_forbidden: "CHR ''_'' \<notin> set forbidden_chars"
  by (simp add: forbidden_chars_def)

lemma sanitize_filename_length: "length (sanitize_filename t) \<le> 80"
  by (simp add: sanitize_filename_def)

lemma sanitize_filename_chars:
  assumes "c \<in> set (sanitize_filename t)"
  shows "c \<notin> set forbidden_chars \<and> \<not> is_space c"
proof -
  have "c \<in> set (collapse_whitespace (filter (\<lambda>c. c \<notin> set forbidden_chars) t))"
    using assms unfolding sanitize_filename_def by (rule in_set_takeD)
  then have "c \<in> {c \<in> set (filter (\<lambda>c. c \<notin> set forbidden_chars) t). \<not> is_space c}
               \<union> {CHR ''_''}"
    using set_collapse_whitespace by blast
  then show ?thesis using underscore_not_space underscore_not_forbidden by auto
qed

lemma sanitize_filename_example:
  "sanitize_filename ''Film: Czesc 1/2?'' = ''Film_Czesc_12''"
  by code_simp

section \<open>Properties: downloads and batches\<close>

lemma get_video_info_walled:
  "get_video_page w video_url = Inr soup \<Longrightarrow> premium_info soup = Some t \<Longrightarrow>
   py_in ''zaloguj'' (py_lower (tag_text t)) \<Longrightarrow>
   get_video_info w video_url = Inl AuthenticationError"
  by (simp add: get_video_info_def)

text \<open>A views text whose digits are separated by a tab makes \<open>int\<close> raise \<open>ValueError\<close>,
  which no handler of \<open>get_video_info\<close> catches.\<close>

lemma parse_views_tab:
  "parse_views (Some (plain [CHR ''1'', CHR 0x09, CHR ''0'', CHR ''0'', CHR ''0''])) = Inl ValueError \<and>
   parse_views (Some (plain ''1 000 odslon'')) = Inr (Some 1000) \<and>
   parse_views (Some (plain ''brak'')) = Inr None"
  by code_simp

text \<open>Whatever fails inside \<open>download\<close> leaves it as \<open>DownloadError\<close>, an interrupt apart.\<close>

lemma download_error_kinds:
  "download w ds video_url preferred = Inl e \<Longrightarrow> e = DownloadError \<or> e = KeyboardInterrupt"
  by (auto simp: download_def is_Exception_def Let_def split: sum.splits prod.splits if_splits)

lemma download_wraps_authentication_error:
  "get_video_info w video_url = Inl AuthenticationError \<Longrightarrow>
   download w ds video_url preferred = Inl DownloadError"
  by (simp add: download_def is_Exception_def)

text \<open>The loop counts every record once: as downloaded when the body of the inner
  \<open>try\<close> returns, as skipped when it raises.\<close>

lemma download_loop_counts:
  "download_loop w ds quality results d k = Inr (d', k') \<Longrightarrow>
   d' = d + int (length (filter (\<lambda>r. \<not> isl (download_item w ds quality r)) results)) \<and>
   k' = k + int (length (filter (\<lambda>r. isl (download_item w ds quality r)) results))"
proof (induction results arbitrary: d k)
  case Nil
  then show ?case by simp
next
  case (Cons r rs)
  show ?case
  proof (cases "download_item w ds quality r")
    case (Inl e)
    with Cons.prems have "download_loop w ds quality rs d (k + 1) = Inr (d', k')"
      by (simp split: if_splits option.splits)
    from Cons.IH[OF this] Inl show ?thesis by simp
  next
    case (Inr p)
    with Cons.prems have "download_loop w ds quality rs (d + 1) k = Inr (d', k')"
      by (simp split: option.splits)
    from Cons.IH[OF this] Inr show ?thesis by simp
  qed
qed

lemma download_loop_total:
  "download_loop w ds quality results d k = Inr (d', k') \<Longrightarrow>
   d' + k' = d + k + int (length results)"
proof -
  assume "download_loop w ds quality results d k = Inr (d', k')"
  from download_loop_counts[OF this]
  show ?thesis
    using sum_length_filter_compl[of "\<lambda>r. isl (download_item w ds quality r)" results]
    by simp
qed

lemma download_item_quiet:
  "tqdm_set_description w = None \<Longrightarrow>
   download_item w ds quality r = download w ds (url r) quality"
  by (simp add: download_item_def)

lemma download_all_no_override_state:
  "snd (download_all_from_results w ds results quality None) = ds"
  by (simp add: download_all_from_results_def Let_def split: option.splits)

lemma download_all_counts:
  assumes "fst (download_all_from_results w ds results quality None) = Inr (d, k)"
  shows "d = int (length (filter (\<lambda>r. \<not> isl (download_item w ds quality r)) results)) \<and>
         k = int (length (filter (\<lambda>r. isl (download_item w ds quality r)) results)) \<and>
         d + k = int (length results)"
proof (cases "results = []")
  case True
  then show ?thesis using assms by (simp add: download_all_from_results_def)
next
  case False
  then have l: "download_loop w ds quality results 0 0 = Inr (d, k)"
    using assms
    by (auto simp: download_all_from_results_def Let_def split: option.splits)
  from download_loop_counts[OF l] download_loop_total[OF l] show ?thesis by simp
qed

text \<open>
  Claim C1 does not hold on the code. The second record of the batch leads to a video
  page behind the login wall, for which \<open>get_video_info\<close> raises the authentication
  error; \<open>download\<close> turns it into \<open>DownloadError\<close>, and the batch counts the record as
  skipped and goes on to the third record.
\<close>

theorem batch_skips_login_walled_item:
  "map url results_three =
     [Some ''https://www.cda.pl/video/a1'', Some ''https://www.cda.pl/video/b2'',
      Some ''https://www.cda.pl/video/c3''] \<and>
   get_video_info site_walled (Some ''https://www.cda.pl/video/b2'') = Inl AuthenticationError \<and>
   download site_walled downloads (Some ''https://www.cda.pl/video/b2'') None = Inl DownloadError \<and>
   download_all_from_results site_walled downloads results_three None None =
     (Inr (2, 1), downloads)"
  by code_simp

text \<open>When the progress bar is built and closed without an exception, the directory
  after the batch is the one before it, whether the batch returns its counts or an
  exception leaves the loop.\<close>

lemma batch_restores_when_bar_returns:
  "tqdm_init w = None \<Longrightarrow> tqdm_close w = None \<Longrightarrow>
   snd (download_all_from_results w ds results quality dir) = ds"
  by (simp add: download_all_from_results_def Let_def split: option.splits)

lemma batch_override_examples:
  "download_all_from_results site_interrupted downloads results_three None (Some ''inne'') =
     (Inl KeyboardInterrupt, downloads) \<and>
   download_all_from_results site_only_inne downloads results_three None (Some ''inne'') =
     (Inr (3, 0), downloads) \<and>
   download_all_from_results site_only_inne downloads results_three None None =
     (Inr (0, 3), downloads)"
  by code_simp

text \<open>
  Claim C8 does not hold on the code. The override is installed and the progress bar is
  built before the \<open>try\<close> whose \<open>finally\<close> clause restores the directory, and that clause
  closes the progress bar before it restores. When the batch is interrupted while the
  progress bar is built, or while it is closed, the exception leaves the batch and the
  downloader keeps the directory of the override.
\<close>

theorem batch_leaves_override_installed:
  "download_dir downloads = ''pobrane_filmy'' \<and>
   download_all_from_results site_bar_interrupted downloads results_three None (Some ''inne'') =
     (Inl KeyboardInterrupt, \<lparr>download_dir = ''inne''\<rparr>) \<and>
   download_all_from_results site_bar_close_interrupted downloads results_three None
     (Some ''inne'') = (Inl KeyboardInterrupt, \<lparr>download_dir = ''inne''\<rparr>)"
  by code_simp

section \<open>Properties: the folder crawl\<close>

lemma reached_end_past_end: "reached_end end_page p = past_end end_page p"
  by (auto simp: reached_end_def past_end_def split: option.splits)

lemma count_not_premium:
  "int (length rs) - int (length (filter premium rs)) = int (length (filter (\<lambda>r. \<not> premium r) rs))"
  using sum_length_filter_compl[of premium rs] by simp

lemma sum_list_upt_shift:
  "(\<Sum>i \<leftarrow> [0..<Suc n]. g i) = g 0 + (\<Sum>i \<leftarrow> [0..<n]. g (Suc i))"
proof -
  have "[0..<Suc n] = 0 # map Suc [0..<n]"
    by (simp only: upt_conv_Cons[of 0 "Suc n"] map_Suc_upt zero_less_Suc if_True)
  then have "(\<Sum>i \<leftarrow> [0..<Suc n]. g i) = (\<Sum>i \<leftarrow> 0 # map Suc [0..<n]. g i)" by (rule arg_cong)
  then show ?thesis by (simp add: o_def del: upt_Suc)
qed

lemma after_pages_0: "after_pages w ds folder_id quality premium_only c 0 = c"
  by (simp add: after_pages_def)

lemma after_pages_1:
  "page_dispatch w ds folder_id quality premium_only (current_page c) = Some (d, k) \<Longrightarrow>
   after_pages w ds folder_id quality premium_only c 1 =
     \<lparr>current_page = current_page c + 1, total_downloaded = total_downloaded c + d,
      total_skipped = total_skipped c + k\<rparr>"
  by (simp add: after_pages_def page_downloaded_def page_skipped_def)

lemma after_pages_Suc:
  "after_pages w ds folder_id quality premium_only c (Suc n) =
   after_pages w ds folder_id quality premium_only
     (after_pages w ds folder_id quality premium_only c 1) n"
proof -
  have s: "\<And>i. current_page c + 1 + int i = current_page c + int (Suc i)" by simp
  show ?thesis
    unfolding after_pages_def sum_list_upt_shift by (simp add: s)
qed

lemma step_fetch_failed:
  "search_in_folder w folder_id (current_page c) = Inl e \<Longrightarrow>
   download_folder_step w folder_id quality end_page premium_only (c, ds) =
     (if e = SearchError then Finished c else Raised e, ds)"
  by (simp add: download_folder_step_def)

lemma step_no_records:
  "search_in_folder w folder_id (current_page c) = Inr [] \<Longrightarrow>
   download_folder_step w folder_id quality end_page premium_only (c, ds) = (Finished c, ds)"
  by (simp add: download_folder_step_def)

lemma step_batch_raised:
  assumes "search_in_folder w folder_id (current_page c) = Inr rs" "rs \<noteq> []"
    "fst (download_all_from_results w ds (if premium_only then filter premium rs else rs)
            quality None) = Inl e"
  shows "download_folder_step w folder_id quality end_page premium_only (c, ds) = (Raised e, ds)"
proof -
  obtain x y where b: "download_all_from_results w ds
      (if premium_only then filter premium rs else rs) quality None = (x, y)"
    by (cases "download_all_from_results w ds
      (if premium_only then filter premium rs else rs) quality None")
  have "x = Inl e" using b assms(3) by simp
  moreover have "y = ds" using b download_all_no_override_state[of w ds
      "if premium_only then filter premium rs else rs" quality] by simp
  ultimately show ?thesis
    using assms(1,2) b by (cases premium_only) (simp_all add: download_folder_step_def Let_def)
qed

lemma step_dispatched:
  assumes "page_dispatch w ds folder_id quality premium_only (current_page c) = Some (d, k)"
  shows "download_folder_step w folder_id quality end_page premium_only (c, ds) =
     (if past_end end_page (current_page c + 1)
      then Finished (after_pages w ds folder_id quality premium_only c 1)
      else (case time_sleep w of
              Some e \<Rightarrow> Raised e
            | None \<Rightarrow> Continue (after_pages w ds folder_id quality premium_only c 1)), ds)"
proof -
  obtain rs where rs: "search_in_folder w folder_id (current_page c) = Inr rs"
    using assms by (cases "search_in_folder w folder_id (current_page c)")
      (simp_all add: page_dispatch_def)
  have ne: "rs \<noteq> []" using assms rs by (auto simp: page_dispatch_def)
  obtain x y where b: "download_all_from_results w ds
      (if premium_only then filter premium rs else rs) quality None = (x, y)"
    by (cases "download_all_from_results w ds
      (if premium_only then filter premium rs else rs) quality None")
  have y: "y = ds" using b download_all_no_override_state[of w ds
      "if premium_only then filter premium rs else rs" quality] by simp
  obtain k0 where x: "x = Inr (d, k0)"
    and k: "k = (if premium_only then int (length (filter (\<lambda>r. \<not> premium r) rs)) else 0) + k0"
    using assms rs ne b by (cases x) (auto simp: page_dispatch_def split: if_splits)
  note ap = after_pages_1[OF assms]
  show ?thesis
    unfolding ap using rs ne b x y k count_not_premium[of rs]
    by (cases premium_only)
       (simp_all add: download_folder_step_def Let_def reached_end_past_end
          split: option.splits)
qed

lemma page_dispatch_None:
  assumes "page_dispatch w ds folder_id quality premium_only p = None"
  shows "(\<exists>e. search_in_folder w folder_id p = Inl e) \<or> search_in_folder w folder_id p = Inr [] \<or>
     (\<exists>rs e. search_in_folder w folder_id p = Inr rs \<and> rs \<noteq> [] \<and>
        fst (download_all_from_results w ds (if premium_only then filter premium rs else rs)
               quality None) = Inl e)"
  using assms
  by (cases "search_in_folder w folder_id p")
     (auto simp: page_dispatch_def split: if_splits sum.splits)

lemma page_dispatch_Some_search:
  "page_dispatch w ds folder_id quality premium_only p = Some dk \<Longrightarrow>
   \<exists>rs. search_in_folder w folder_id p = Inr rs \<and> rs \<noteq> []"
  by (cases "search_in_folder w folder_id p")
     (auto simp: page_dispatch_def split: if_splits sum.splits)


text \<open>What one iteration does, read from the page it fetches.\<close>

lemma step_fetch_ends:
  "fetch_ends w folder_id (current_page c) \<Longrightarrow>
   download_folder_step w folder_id quality end_page premium_only (c, ds) = (Finished c, ds)"
  unfolding fetch_ends_def using step_fetch_failed[of w folder_id c SearchError] step_no_records
  by auto

lemma step_page_is_last:
  "page_is_last w ds folder_id quality end_page premium_only (current_page c) \<Longrightarrow>
   download_folder_step w folder_id quality end_page premium_only (c, ds) =
     (Finished (after_pages w ds folder_id quality premium_only c 1), ds)"
  unfolding page_is_last_def using step_dispatched[of w ds folder_id quality premium_only c]
  by auto

lemma step_page_goes_on:
  "page_goes_on w ds folder_id quality end_page premium_only (current_page c) \<Longrightarrow>
   download_folder_step w folder_id quality end_page premium_only (c, ds) =
     (Continue (after_pages w ds folder_id quality premium_only c 1), ds)"
  unfolding page_goes_on_def using step_dispatched[of w ds folder_id quality premium_only c]
  by auto

lemma step_Finished_cases:
  assumes "download_folder_step w folder_id quality end_page premium_only (c, ds) =
             (Finished c', ds')"
  shows "ds' = ds \<and>
     (fetch_ends w folder_id (current_page c) \<and> c' = c \<or>
      page_is_last w ds folder_id quality end_page premium_only (current_page c) \<and>
      c' = after_pages w ds folder_id quality premium_only c 1)"
proof (cases "page_dispatch w ds folder_id quality premium_only (current_page c)")
  case (Some dk)
  obtain d k where dk: "dk = (d, k)" by (cases dk)
  show ?thesis
    using assms step_dispatched[OF Some[unfolded dk], of end_page] Some
    by (auto simp: page_is_last_def split: if_splits option.splits)
next
  case None
  from page_dispatch_None[OF None]
  consider e where "search_in_folder w folder_id (current_page c) = Inl e"
    | "search_in_folder w folder_id (current_page c) = Inr []"
    | rs e where "search_in_folder w folder_id (current_page c) = Inr rs" "rs \<noteq> []"
        "fst (download_all_from_results w ds (if premium_only then filter premium rs else rs)
               quality None) = Inl e"
    by blast
  then show ?thesis
  proof cases
    case 1
    then show ?thesis using assms step_fetch_failed[OF 1, of quality end_page premium_only ds]
      by (auto simp: fetch_ends_def split: if_splits)
  next
    case 2
    then show ?thesis using assms step_no_records[OF 2, of quality end_page premium_only ds]
      by (auto simp: fetch_ends_def)
  next
    case 3
    then show ?thesis using assms step_batch_raised[OF 3, of end_page] by simp
  qed
qed

lemma step_Continue_cases:
  assumes "download_folder_step w folder_id quality end_page premium_only (c, ds) =
             (Continue c', ds')"
  shows "ds' = ds \<and>
     page_goes_on w ds folder_id quality end_page premium_only (current_page c) \<and>
     c' = after_pages w ds folder_id quality premium_only c 1"
proof (cases "page_dispatch w ds folder_id quality premium_only (current_page c)")
  case (Some dk)
  obtain d k where dk: "dk = (d, k)" by (cases dk)
  show ?thesis
    using assms step_dispatched[OF Some[unfolded dk], of end_page] Some
    by (auto simp: page_goes_on_def split: if_splits option.splits)
next
  case None
  from page_dispatch_None[OF None]
  consider e where "search_in_folder w folder_id (current_page c) = Inl e"
    | "search_in_folder w folder_id (current_page c) = Inr []"
    | rs e where "search_in_folder w folder_id (current_page c) = Inr rs" "rs \<noteq> []"
        "fst (download_all_from_results w ds (if premium_only then filter premium rs else rs)
               quality None) = Inl e"
    by blast
  then show ?thesis
  proof cases
    case 1
    then show ?thesis using assms step_fetch_failed[OF 1, of quality end_page premium_only ds]
      by (auto split: if_splits)
  next
    case 2
    then show ?thesis using assms step_no_records[OF 2, of quality end_page premium_only ds]
      by auto
  next
    case 3
    then show ?thesis using assms step_batch_raised[OF 3, of end_page] by simp
  qed
qed

text \<open>The loop: it runs through the pages that go on, and returns at the first page
  that ends the crawl.\<close>

lemma loop_goes_on:
  "\<forall>i<n. page_goes_on w ds folder_id quality end_page premium_only (current_page c + int i) \<Longrightarrow>
   download_folder_loop w folder_id quality end_page premium_only (c, ds) =
   download_folder_loop w folder_id quality end_page premium_only
     (after_pages w ds folder_id quality premium_only c n, ds)"
proof (induction n arbitrary: c)
  case 0
  then show ?case by (simp add: after_pages_0)
next
  case (Suc n)
  let ?c1 = "after_pages w ds folder_id quality premium_only c 1"
  have g0: "page_goes_on w ds folder_id quality end_page premium_only (current_page c)"
    using Suc.prems by force
  have cp: "current_page ?c1 = current_page c + 1" by (simp add: after_pages_def)
  have "\<forall>i<n. page_goes_on w ds folder_id quality end_page premium_only
                 (current_page ?c1 + int i)"
  proof (intro allI impI)
    fix i assume "i < n"
    then have "page_goes_on w ds folder_id quality end_page premium_only
                 (current_page c + int (Suc i))"
      using Suc.prems by blast
    then show "page_goes_on w ds folder_id quality end_page premium_only
                 (current_page ?c1 + int i)"
      by (simp add: after_pages_def algebra_simps)
  qed
  from Suc.IH[OF this]
  have "download_folder_loop w folder_id quality end_page premium_only (?c1, ds) =
        download_folder_loop w folder_id quality end_page premium_only
          (after_pages w ds folder_id quality premium_only c (Suc n), ds)"
    by (simp only: after_pages_Suc)
  moreover have "download_folder_loop w folder_id quality end_page premium_only (c, ds) =
        download_folder_loop w folder_id quality end_page premium_only (?c1, ds)"
    by (subst download_folder_loop.simps) (simp add: step_page_goes_on[OF g0])
  ultimately show ?case by simp
qed

lemma loop_fetch_ends:
  "fetch_ends w folder_id (current_page c) \<Longrightarrow>
   download_folder_loop w folder_id quality end_page premium_only (c, ds) = Some (Inr c, ds)"
  by (subst download_folder_loop.simps) (simp add: step_fetch_ends)

lemma loop_page_is_last:
  "page_is_last w ds folder_id quality end_page premium_only (current_page c) \<Longrightarrow>
   download_folder_loop w folder_id quality end_page premium_only (c, ds) =
     Some (Inr (after_pages w ds folder_id quality premium_only c 1), ds)"
  by (subst download_folder_loop.simps) (simp add: step_page_is_last)

lemma current_page_after_pages:
  "current_page (after_pages w ds folder_id quality premium_only c n) = current_page c + int n"
  by (simp add: after_pages_def)

lemma after_pages_Suc_end:
  "after_pages w ds folder_id quality premium_only
     (after_pages w ds folder_id quality premium_only c n) 1 =
   after_pages w ds folder_id quality premium_only c (Suc n)"
  by (simp add: after_pages_def add.assoc)

lemma loop_returns_if:
  assumes "\<forall>i<n. page_goes_on w ds folder_id quality end_page premium_only
                    (current_page c + int i)"
    and "fetch_ends w folder_id (current_page c + int n) \<and>
           c' = after_pages w ds folder_id quality premium_only c n \<or>
         page_is_last w ds folder_id quality end_page premium_only (current_page c + int n) \<and>
           c' = after_pages w ds folder_id quality premium_only c (Suc n)"
  shows "download_folder_loop w folder_id quality end_page premium_only (c, ds) =
           Some (Inr c', ds)"
proof -
  let ?cn = "after_pages w ds folder_id quality premium_only c n"
  have l: "download_folder_loop w folder_id quality end_page premium_only (c, ds) =
           download_folder_loop w folder_id quality end_page premium_only (?cn, ds)"
    using assms(1) by (rule loop_goes_on)
  have cp: "current_page ?cn = current_page c + int n" by (rule current_page_after_pages)
  from assms(2) show ?thesis
  proof
    assume a: "fetch_ends w folder_id (current_page c + int n) \<and> c' = ?cn"
    then have "fetch_ends w folder_id (current_page ?cn)" by (simp only: cp)
    from loop_fetch_ends[OF this] l a show ?thesis by simp
  next
    assume a: "page_is_last w ds folder_id quality end_page premium_only
                 (current_page c + int n) \<and>
               c' = after_pages w ds folder_id quality premium_only c (Suc n)"
    then have "page_is_last w ds folder_id quality end_page premium_only (current_page ?cn)"
      by (simp only: cp)
    from loop_page_is_last[OF this] l a show ?thesis by (simp only: after_pages_Suc_end)
  qed
qed

lemma loop_returns_only_if:
  assumes "download_folder_loop w folder_id quality end_page premium_only st = Some y"
  shows "\<forall>c ds c' ds'. st = (c, ds) \<and> y = (Inr c', ds') \<longrightarrow>
     ds' = ds \<and>
     (\<exists>n. (\<forall>i<n. page_goes_on w ds folder_id quality end_page premium_only
                    (current_page c + int i)) \<and>
          (fetch_ends w folder_id (current_page c + int n) \<and>
             c' = after_pages w ds folder_id quality premium_only c n \<or>
           page_is_last w ds folder_id quality end_page premium_only (current_page c + int n) \<and>
             c' = after_pages w ds folder_id quality premium_only c (Suc n)))"
proof (rule download_folder_loop.raw_induct[where P = "\<lambda>w folder_id quality end_page premium_only st y.
    \<forall>c ds c' ds'. st = (c, ds) \<and> y = (Inr c', ds') \<longrightarrow>
     ds' = ds \<and>
     (\<exists>n. (\<forall>i<n. page_goes_on w ds folder_id quality end_page premium_only
                    (current_page c + int i)) \<and>
          (fetch_ends w folder_id (current_page c + int n) \<and>
             c' = after_pages w ds folder_id quality premium_only c n \<or>
           page_is_last w ds folder_id quality end_page premium_only (current_page c + int n) \<and>
             c' = after_pages w ds folder_id quality premium_only c (Suc n)))", OF _ assms],
    goal_cases)
  case (1 loop w folder_id quality end_page premium_only st y)
  show ?case
  proof (intro allI impI)
    fix c ds c' ds'
    assume a: "st = (c, ds) \<and> y = (Inr c', ds')"
    obtain r dsr where s: "download_folder_step w folder_id quality end_page premium_only (c, ds)
                            = (r, dsr)"
      by (cases "download_folder_step w folder_id quality end_page premium_only (c, ds)")
    show "ds' = ds \<and>
      (\<exists>n. (\<forall>i<n. page_goes_on w ds folder_id quality end_page premium_only
                     (current_page c + int i)) \<and>
           (fetch_ends w folder_id (current_page c + int n) \<and>
              c' = after_pages w ds folder_id quality premium_only c n \<or>
            page_is_last w ds folder_id quality end_page premium_only (current_page c + int n) \<and>
              c' = after_pages w ds folder_id quality premium_only c (Suc n)))"
    proof (cases r)
      case (Finished cf)
      have y: "y = (Inr cf, dsr)" using 1(2) a s Finished by simp
      have f: "dsr = ds \<and>
         (fetch_ends w folder_id (current_page c) \<and> cf = c \<or>
          page_is_last w ds folder_id quality end_page premium_only (current_page c) \<and>
          cf = after_pages w ds folder_id quality premium_only c 1)"
        using s Finished step_Finished_cases by blast
      have e: "cf = c'" "dsr = ds'" using y a by simp_all
      have "(\<forall>i<(0::nat). page_goes_on w ds folder_id quality end_page premium_only
                     (current_page c + int i)) \<and>
           (fetch_ends w folder_id (current_page c + int 0) \<and>
              c' = after_pages w ds folder_id quality premium_only c 0 \<or>
            page_is_last w ds folder_id quality end_page premium_only (current_page c + int 0) \<and>
              c' = after_pages w ds folder_id quality premium_only c (Suc 0))"
        using f e by (auto simp: after_pages_0)
      then show ?thesis using f e by blast
    next
      case (Raised e)
      then show ?thesis using 1(2) a s by simp
    next
      case (Continue c1)
      have g: "dsr = ds \<and>
         page_goes_on w ds folder_id quality end_page premium_only (current_page c) \<and>
         c1 = after_pages w ds folder_id quality premium_only c 1"
        using s Continue step_Continue_cases by blast
      have "loop w folder_id quality end_page premium_only (c1, ds) = Some y"
        using 1(2) a s Continue g by simp
      from 1(1)[OF this] a
      obtain n where n: "ds' = ds"
        "\<forall>i<n. page_goes_on w ds folder_id quality end_page premium_only
                  (current_page c1 + int i)"
        "fetch_ends w folder_id (current_page c1 + int n) \<and>
           c' = after_pages w ds folder_id quality premium_only c1 n \<or>
         page_is_last w ds folder_id quality end_page premium_only (current_page c1 + int n) \<and>
           c' = after_pages w ds folder_id quality premium_only c1 (Suc n)"
        by blast
      have cp: "current_page c1 = current_page c + 1" using g by (simp add: after_pages_def)
      have sh: "\<And>i. current_page c1 + int i = current_page c + int (Suc i)"
        by (simp add: cp)
      have ap: "\<And>m. after_pages w ds folder_id quality premium_only c1 m =
                    after_pages w ds folder_id quality premium_only c (Suc m)"
        using g by (simp only: after_pages_Suc)
      have 1: "\<forall>i<Suc n. page_goes_on w ds folder_id quality end_page premium_only
                  (current_page c + int i)"
      proof (intro allI impI)
        fix i assume i: "i < Suc n"
        show "page_goes_on w ds folder_id quality end_page premium_only
                (current_page c + int i)"
        proof (cases i)
          case 0
          then show ?thesis using g by simp
        next
          case (Suc j)
          then have "j < n" using i by simp
          then show ?thesis using n(2) sh Suc by metis
        qed
      qed
      have 2: "fetch_ends w folder_id (current_page c + int (Suc n)) \<and>
           c' = after_pages w ds folder_id quality premium_only c (Suc n) \<or>
         page_is_last w ds folder_id quality end_page premium_only
           (current_page c + int (Suc n)) \<and>
           c' = after_pages w ds folder_id quality premium_only c (Suc (Suc n))"
        using n(3) unfolding sh ap .
      show ?thesis using n(1) 1 2 by blast
    qed
  qed
qed

lemma download_folder_returns_iff:
  "download_folder w ds folder_id quality start_page end_page premium_only = Some (Inr c, ds') \<longleftrightarrow>
   ds' = ds \<and>
   (\<exists>n. (\<forall>i<n. page_goes_on w ds folder_id quality end_page premium_only (start_page + int i)) \<and>
        (fetch_ends w folder_id (start_page + int n) \<and>
           c = after_pages w ds folder_id quality premium_only
                 \<lparr>current_page = start_page, total_downloaded = 0, total_skipped = 0\<rparr> n \<or>
         page_is_last w ds folder_id quality end_page premium_only (start_page + int n) \<and>
           c = after_pages w ds folder_id quality premium_only
                 \<lparr>current_page = start_page, total_downloaded = 0, total_skipped = 0\<rparr> (Suc n)))"
  (is "?L \<longleftrightarrow> ?R")
proof
  assume ?L
  then have "download_folder_loop w folder_id quality end_page premium_only
     (\<lparr>current_page = start_page, total_downloaded = 0, total_skipped = 0\<rparr>, ds) = Some (Inr c, ds')"
    by (simp only: download_folder_def)
  from loop_returns_only_if[OF this] show ?R by simp
next
  assume r: ?R
  then obtain n where n:
    "\<forall>i<n. page_goes_on w ds folder_id quality end_page premium_only
       (current_page \<lparr>current_page = start_page, total_downloaded = 0, total_skipped = 0\<rparr> + int i)"
    "fetch_ends w folder_id
       (current_page \<lparr>current_page = start_page, total_downloaded = 0, total_skipped = 0\<rparr> + int n) \<and>
       c = after_pages w ds folder_id quality premium_only
             \<lparr>current_page = start_page, total_downloaded = 0, total_skipped = 0\<rparr> n \<or>
     page_is_last w ds folder_id quality end_page premium_only
       (current_page \<lparr>current_page = start_page, total_downloaded = 0, total_skipped = 0\<rparr> + int n) \<and>
       c = after_pages w ds folder_id quality premium_only
             \<lparr>current_page = start_page, total_downloaded = 0, total_skipped = 0\<rparr> (Suc n)"
    by auto
  from loop_returns_if[OF n] r show ?L by (simp only: download_folder_def)
qed

text \<open>What a dispatched page adds to the totals.\<close>

lemma page_dispatch_iff:
  "page_dispatch w ds folder_id quality premium_only p = Some (d, k) \<longleftrightarrow>
   (\<exists>rs k'. search_in_folder w folder_id p = Inr rs \<and> rs \<noteq> [] \<and>
      fst (download_all_from_results w ds (if premium_only then filter premium rs else rs)
             quality None) = Inr (d, k') \<and>
      k = (if premium_only then int (length (filter (\<lambda>r. \<not> premium r) rs)) else 0) + k')"
  by (cases "search_in_folder w folder_id p")
     (auto simp: page_dispatch_def split: if_splits sum.splits)

lemma page_dispatch_counts:
  assumes "search_in_folder w folder_id p = Inr rs"
    and "page_dispatch w ds folder_id quality premium_only p = Some (d, k)"
  shows "d = int (length (filter (\<lambda>r. \<not> isl (download_item w ds quality r))
                     (if premium_only then filter premium rs else rs))) \<and>
         k = (if premium_only then int (length (filter (\<lambda>r. \<not> premium r) rs)) else 0) +
             int (length (filter (\<lambda>r. isl (download_item w ds quality r))
                     (if premium_only then filter premium rs else rs))) \<and>
         d + k = int (length rs)"
proof -
  from assms(2)[unfolded page_dispatch_iff] assms(1)
  obtain k' where k':
    "fst (download_all_from_results w ds (if premium_only then filter premium rs else rs)
            quality None) = Inr (d, k')"
    "k = (if premium_only then int (length (filter (\<lambda>r. \<not> premium r) rs)) else 0) + k'"
    by auto
  note c = download_all_counts[OF k'(1)]
  have t: "int (length (filter premium rs)) + int (length (filter (\<lambda>r. \<not> premium r) rs)) =
           int (length rs)"
    using sum_length_filter_compl[of premium rs] by simp
  have 1: "d = int (length (filter (\<lambda>r. \<not> isl (download_item w ds quality r))
                     (if premium_only then filter premium rs else rs)))"
    using c by (rule conjunct1)
  have 2: "k = (if premium_only then int (length (filter (\<lambda>r. \<not> premium r) rs)) else 0) +
             int (length (filter (\<lambda>r. isl (download_item w ds quality r))
                     (if premium_only then filter premium rs else rs)))"
    using c k'(2) by simp
  have 3: "d + k = int (length rs)"
  proof (cases premium_only)
    case True
    then show ?thesis using c k'(2) t by simp
  next
    case False
    then show ?thesis using c k'(2) by simp
  qed
  show ?thesis by (rule conjI[OF 1 conjI[OF 2 3]])
qed

text \<open>A batch over records that all download, with a progress bar and pauses that
  return.\<close>

lemma download_loop_all_return:
  assumes "tqdm_set_description w = None" "tqdm_update w = None" "time_sleep w = None"
  shows "\<forall>r \<in> set rs. \<not> isl (download w ds (url r) quality) \<Longrightarrow>
         download_loop w ds quality rs d k = Inr (d + int (length rs), k)"
proof (induction rs arbitrary: d)
  case Nil
  then show ?case by simp
next
  case (Cons r rs)
  obtain f where f: "download w ds (url r) quality = Inr f"
    using Cons.prems by (cases "download w ds (url r) quality") simp_all
  have a: "after_item w (rs = []) = None" using assms by (simp add: after_item_def)
  have "download_loop w ds quality rs (d + 1) k = Inr (d + 1 + int (length rs), k)"
    using Cons.prems by (intro Cons.IH) simp
  then show ?case using f a assms(1) by (simp add: download_item_def)
qed

lemma download_all_all_return:
  assumes "tqdm_init w = None" "tqdm_set_description w = None" "tqdm_update w = None"
    "tqdm_close w = None" "time_sleep w = None"
    and "\<forall>r \<in> set rs. \<not> isl (download w ds (url r) quality)"
  shows "download_all_from_results w ds rs quality None = (Inr (int (length rs), 0), ds)"
proof (cases "rs = []")
  case True
  then show ?thesis by (simp add: download_all_from_results_def)
next
  case False
  have "download_loop w ds quality rs 0 0 = Inr (0 + int (length rs), 0)"
    using assms(2,3,5,6) by (rule download_loop_all_return)
  then show ?thesis using False assms(1,4) by (simp add: download_all_from_results_def)
qed

lemma fixture_crawl:
  assumes s1: "search_in_folder w folder_id start_page = Inr rs" and l: "length rs = 3"
    and s2: "search_in_folder w folder_id (start_page + 1) = Inr []"
    and ok: "\<forall>r \<in> set rs. \<not> isl (download w ds (url r) quality)"
    and q: "tqdm_init w = None" "tqdm_set_description w = None" "tqdm_update w = None"
      "tqdm_close w = None" "time_sleep w = None"
  shows "(\<exists>d k. download_folder w ds folder_id quality start_page end_page premium_only =
            Some (Inr \<lparr>current_page = start_page + 1, total_downloaded = d, total_skipped = k\<rparr>, ds) \<and>
            d + k = 3 \<and> d = (if premium_only then int (length (filter premium rs)) else 3)) \<and>
         (\<not> past_end end_page (start_page + 1) \<longrightarrow>
            page_goes_on w ds folder_id quality end_page premium_only start_page \<and>
            fetch_ends w folder_id (start_page + 1))"
proof -
  let ?fs = "if premium_only then filter premium rs else rs"
  let ?c0 = "\<lparr>current_page = start_page, total_downloaded = 0, total_skipped = 0\<rparr>"
  let ?d = "int (length ?fs)"
  let ?k = "(if premium_only then int (length (filter (\<lambda>r. \<not> premium r) rs)) else 0)"
  have ne: "rs \<noteq> []" using l by auto
  have "\<forall>r \<in> set ?fs. \<not> isl (download w ds (url r) quality)" using ok by simp
  from download_all_all_return[OF q this]
  have b: "download_all_from_results w ds ?fs quality None = (Inr (?d, 0), ds)" .
  have pd: "page_dispatch w ds folder_id quality premium_only start_page = Some (?d, ?k)"
    unfolding page_dispatch_iff using s1 ne b by simp
  have pd': "page_dispatch w ds folder_id quality premium_only (current_page ?c0) = Some (?d, ?k)"
    using pd by simp
  have ap: "after_pages w ds folder_id quality premium_only ?c0 (Suc 0) =
        \<lparr>current_page = start_page + 1, total_downloaded = ?d, total_skipped = ?k\<rparr>"
    using after_pages_1[OF pd'] by simp
  have fe: "fetch_ends w folder_id (start_page + 1)" using s2 by (simp add: fetch_ends_def)
  have sum: "?d + ?k = 3"
    using l sum_length_filter_compl[of premium rs] by simp
  have dd: "?d = (if premium_only then int (length (filter premium rs)) else 3)"
    using l by simp
  have ret: "download_folder w ds folder_id quality start_page end_page premium_only =
      Some (Inr \<lparr>current_page = start_page + 1, total_downloaded = ?d, total_skipped = ?k\<rparr>, ds)"
  proof (cases "past_end end_page (start_page + 1)")
    case True
    then have "page_is_last w ds folder_id quality end_page premium_only (start_page + int 0)"
      using pd by (simp add: page_is_last_def)
    then show ?thesis unfolding download_folder_returns_iff ap[symmetric] by blast
  next
    case False
    then have g: "page_goes_on w ds folder_id quality end_page premium_only start_page"
      using pd q(5) by (simp add: page_goes_on_def)
    have "(\<forall>i<Suc 0. page_goes_on w ds folder_id quality end_page premium_only
               (start_page + int i)) \<and>
          (fetch_ends w folder_id (start_page + int (Suc 0)) \<and>
           after_pages w ds folder_id quality premium_only ?c0 (Suc 0) =
           after_pages w ds folder_id quality premium_only ?c0 (Suc 0) \<or>
           page_is_last w ds folder_id quality end_page premium_only (start_page + int (Suc 0)) \<and>
           after_pages w ds folder_id quality premium_only ?c0 (Suc 0) =
           after_pages w ds folder_id quality premium_only ?c0 (Suc (Suc 0)))"
      using g fe by simp
    then show ?thesis unfolding download_folder_returns_iff ap[symmetric] by blast
  qed
  have 1: "\<exists>d k. download_folder w ds folder_id quality start_page end_page premium_only =
            Some (Inr \<lparr>current_page = start_page + 1, total_downloaded = d, total_skipped = k\<rparr>, ds) \<and>
            d + k = 3 \<and> d = (if premium_only then int (length (filter premium rs)) else 3)"
    using ret sum dd by blast
  have 2: "\<not> past_end end_page (start_page + 1) \<longrightarrow>
            page_goes_on w ds folder_id quality end_page premium_only start_page \<and>
            fetch_ends w folder_id (start_page + 1)"
    using pd q(5) fe by (simp add: page_goes_on_def)
  show ?thesis by (rule conjI[OF 1 2])
qed

text \<open>
  The sentence of claim C7 on when the crawl ends does not hold on the code: the crawl
  also ends, with its totals, when the fetch of a page fails with \<open>SearchError\<close>. Here
  the request for the first page fails; no page yields zero records and no end page is
  set, and the crawl returns the totals it started with.
\<close>

theorem crawl_ends_on_fetch_failure_counterexample:
  "search_in_folder site_folder_down ''f'' 1 = Inl SearchError \<and>
   search_in_folder site_folder_down ''f'' 1 \<noteq> Inr [] \<and>
   \<not> reached_end None 1 \<and>
   download_folder site_folder_down downloads ''f'' None 1 None False =
     Some (Inr \<lparr>current_page = 1, total_downloaded = 0, total_skipped = 0\<rparr>, downloads)"
  by code_simp

text \<open>
  Claim C7, amended. The crawl from \<open>start_page\<close> returns the state \<open>c\<close> (page number and
  totals) exactly when, for some \<open>n\<close>, each of the first \<open>n\<close> pages is dispatched, is
  followed by a page number that does not exceed the end page, and by a pause that
  returns, and then either the fetch of the next page fails with \<open>SearchError\<close> or yields
  zero records, and \<open>c\<close> holds the totals of the \<open>n\<close> pages, or that page is dispatched
  too, the page number after it exceeds the end page (when one is set and is not 0),
  and \<open>c\<close> holds the totals of the \<open>n + 1\<close> pages. The downloader is left as it was.
  A dispatched page adds each of its records to exactly one total: to the downloads
  when the record passes the premium filter and its download returns, to the skipped
  ones when the filter drops it or its download fails. On a site whose first page has
  three records that all download and whose second page has none, with a progress bar
  and pauses that return, the crawl returns after the fetch of the second page, with
  page number 2 and totals that add up to 3; when an end page cuts the crawl after the
  first page, it returns the same state.
\<close>

theorem folder_crawl:
  "(download_folder w ds folder_id quality start_page end_page premium_only = Some (Inr c, ds') \<longleftrightarrow>
      ds' = ds \<and>
      (\<exists>n. (\<forall>i<n. page_goes_on w ds folder_id quality end_page premium_only (start_page + int i)) \<and>
           (fetch_ends w folder_id (start_page + int n) \<and>
              c = after_pages w ds folder_id quality premium_only
                    \<lparr>current_page = start_page, total_downloaded = 0, total_skipped = 0\<rparr> n \<or>
            page_is_last w ds folder_id quality end_page premium_only (start_page + int n) \<and>
              c = after_pages w ds folder_id quality premium_only
                    \<lparr>current_page = start_page, total_downloaded = 0, total_skipped = 0\<rparr>
                    (Suc n)))) \<and>
   (past_end end_page p \<longleftrightarrow> (\<exists>e. end_page = Some e \<and> e \<noteq> 0 \<and> e < p)) \<and>
   (page_dispatch w ds folder_id quality premium_only p = Some (d, k) \<longleftrightarrow>
      (\<exists>rs k'. search_in_folder w folder_id p = Inr rs \<and> rs \<noteq> [] \<and>
         fst (download_all_from_results w ds (if premium_only then filter premium rs else rs)
                quality None) = Inr (d, k') \<and>
         k = (if premium_only then int (length (filter (\<lambda>r. \<not> premium r) rs)) else 0) + k')) \<and>
   (search_in_folder w folder_id p = Inr rs \<and>
    page_dispatch w ds folder_id quality premium_only p = Some (d, k) \<longrightarrow>
      d = int (length (filter (\<lambda>r. \<not> isl (download_item w ds quality r))
                 (if premium_only then filter premium rs else rs))) \<and>
      k = (if premium_only then int (length (filter (\<lambda>r. \<not> premium r) rs)) else 0) +
          int (length (filter (\<lambda>r. isl (download_item w ds quality r))
                 (if premium_only then filter premium rs else rs))) \<and>
      d + k = int (length rs)) \<and>
   (search_in_folder w folder_id start_page = Inr rs3 \<and> length rs3 = 3 \<and>
    search_in_folder w folder_id (start_page + 1) = Inr [] \<and>
    (\<forall>r \<in> set rs3. \<not> isl (download w ds (url r) quality)) \<and>
    tqdm_init w = None \<and> tqdm_set_description w = None \<and> tqdm_update w = None \<and>
    tqdm_close w = None \<and> time_sleep w = None \<longrightarrow>
      (\<exists>d3 k3. download_folder w ds folder_id quality start_page end_page premium_only =
           Some (Inr \<lparr>current_page = start_page + 1, total_downloaded = d3,
                      total_skipped = k3\<rparr>, ds) \<and>
         d3 + k3 = 3 \<and> d3 = (if premium_only then int (length (filter premium rs3)) else 3)) \<and>
      (\<not> past_end end_page (start_page + 1) \<longrightarrow>
         page_goes_on w ds folder_id quality end_page premium_only start_page \<and>
         fetch_ends w folder_id (start_page + 1)))"
proof -
  have A: "download_folder w ds folder_id quality start_page end_page premium_only = Some (Inr c, ds') \<longleftrightarrow>
      ds' = ds \<and>
      (\<exists>n. (\<forall>i<n. page_goes_on w ds folder_id quality end_page premium_only (start_page + int i)) \<and>
           (fetch_ends w folder_id (start_page + int n) \<and>
              c = after_pages w ds folder_id quality premium_only
                    \<lparr>current_page = start_page, total_downloaded = 0, total_skipped = 0\<rparr> n \<or>
            page_is_last w ds folder_id quality end_page premium_only (start_page + int n) \<and>
              c = after_pages w ds folder_id quality premium_only
                    \<lparr>current_page = start_page, total_downloaded = 0, total_skipped = 0\<rparr>
                    (Suc n)))"
    by (rule download_folder_returns_iff)
  have B: "past_end end_page p \<longleftrightarrow> (\<exists>e. end_page = Some e \<and> e \<noteq> 0 \<and> e < p)"
    by (cases end_page) (simp_all add: past_end_def)
  have C: "page_dispatch w ds folder_id quality premium_only p = Some (d, k) \<longleftrightarrow>
      (\<exists>rs k'. search_in_folder w folder_id p = Inr rs \<and> rs \<noteq> [] \<and>
         fst (download_all_from_results w ds (if premium_only then filter premium rs else rs)
                quality None) = Inr (d, k') \<and>
         k = (if premium_only then int (length (filter (\<lambda>r. \<not> premium r) rs)) else 0) + k')"
    by (rule page_dispatch_iff)
  have D: "search_in_folder w folder_id p = Inr rs \<and>
    page_dispatch w ds folder_id quality premium_only p = Some (d, k) \<longrightarrow>
      d = int (length (filter (\<lambda>r. \<not> isl (download_item w ds quality r))
                 (if premium_only then filter premium rs else rs))) \<and>
      k = (if premium_only then int (length (filter (\<lambda>r. \<not> premium r) rs)) else 0) +
          int (length (filter (\<lambda>r. isl (download_item w ds quality r))
                 (if premium_only then filter premium rs else rs))) \<and>
      d + k = int (length rs)"
  proof
    assume h: "search_in_folder w folder_id p = Inr rs \<and>
      page_dispatch w ds folder_id quality premium_only p = Some (d, k)"
    show "d = int (length (filter (\<lambda>r. \<not> isl (download_item w ds quality r))
                 (if premium_only then filter premium rs else rs))) \<and>
      k = (if premium_only then int (length (filter (\<lambda>r. \<not> premium r) rs)) else 0) +
          int (length (filter (\<lambda>r. isl (download_item w ds quality r))
                 (if premium_only then filter premium rs else rs))) \<and>
      d + k = int (length rs)"
      by (rule page_dispatch_counts[OF h[THEN conjunct1] h[THEN conjunct2]])
  qed
  have E: "search_in_folder w folder_id start_page = Inr rs3 \<and> length rs3 = 3 \<and>
    search_in_folder w folder_id (start_page + 1) = Inr [] \<and>
    (\<forall>r \<in> set rs3. \<not> isl (download w ds (url r) quality)) \<and>
    tqdm_init w = None \<and> tqdm_set_description w = None \<and> tqdm_update w = None \<and>
    tqdm_close w = None \<and> time_sleep w = None \<longrightarrow>
      (\<exists>d3 k3. download_folder w ds folder_id quality start_page end_page premium_only =
           Some (Inr \<lparr>current_page = start_page + 1, total_downloaded = d3,
                      total_skipped = k3\<rparr>, ds) \<and>
         d3 + k3 = 3 \<and> d3 = (if premium_only then int (length (filter premium rs3)) else 3)) \<and>
      (\<not> past_end end_page (start_page + 1) \<longrightarrow>
         page_goes_on w ds folder_id quality end_page premium_only start_page \<and>
         fetch_ends w folder_id (start_page + 1))"
  proof
    assume h: "search_in_folder w folder_id start_page = Inr rs3 \<and> length rs3 = 3 \<and>
      search_in_folder w folder_id (start_page + 1) = Inr [] \<and>
      (\<forall>r \<in> set rs3. \<not> isl (download w ds (url r) quality)) \<and>
      tqdm_init w = None \<and> tqdm_set_description w = None \<and> tqdm_update w = None \<and>
      tqdm_close w = None \<and> time_sleep w = None"
    then have h': "search_in_folder w folder_id start_page = Inr rs3" "length rs3 = 3"
      "search_in_folder w folder_id (start_page + 1) = Inr []"
      "\<forall>r \<in> set rs3. \<not> isl (download w ds (url r) quality)"
      "tqdm_init w = None" "tqdm_set_description w = None" "tqdm_update w = None"
      "tqdm_close w = None" "time_sleep w = None"
      by simp_all
    show "(\<exists>d3 k3. download_folder w ds folder_id quality start_page end_page premium_only =
           Some (Inr \<lparr>current_page = start_page + 1, total_downloaded = d3,
                      total_skipped = k3\<rparr>, ds) \<and>
         d3 + k3 = 3 \<and> d3 = (if premium_only then int (length (filter premium rs3)) else 3)) \<and>
      (\<not> past_end end_page (start_page + 1) \<longrightarrow>
         page_goes_on w ds folder_id quality end_page premium_only start_page \<and>
         fetch_ends w folder_id (start_page + 1))"
      by (rule fixture_crawl[OF h'])
  qed
  show ?thesis by (rule conjI[OF A conjI[OF B conjI[OF C conjI[OF D E]]]])
qed

theorem folder_crawl_witness:
  "download_folder site_fixture downloads ''f'' None 1 None False =
     Some (Inr \<lparr>current_page = 2, total_downloaded = 3, total_skipped = 0\<rparr>, downloads) \<and>
   page_goes_on site_fixture downloads ''f'' None None False 1 \<and>
   fetch_ends site_fixture ''f'' 2 \<and>
   download_folder site_second_page_down downloads ''f'' None 1 None False =
     Some (Inr \<lparr>current_page = 2, total_downloaded = 3, total_skipped = 0\<rparr>, downloads) \<and>
   download_folder site_endless downloads ''f'' None 1 (Some 2) False =
     Some (Inr \<lparr>current_page = 3, total_downloaded = 6, total_skipped = 0\<rparr>, downloads) \<and>
   search_in_folder site_walled ''f'' 1 = Inr results_three \<and>
   page_dispatch site_walled downloads ''f'' None False 1 = Some (2, 1) \<and>
   int (length (filter (\<lambda>r. \<not> isl (download_item site_walled downloads None r)) results_three)) = 2 \<and>
   int (length (filter (\<lambda>r. isl (download_item site_walled downloads None r)) results_three)) = 1"
proof -
  note E = folder_crawl[where w = site_fixture and ds = downloads and folder_id = "''f''"
      and quality = None and start_page = 1 and end_page = None and premium_only = False
      and ?rs3.0 = results_three, THEN conjunct2, THEN conjunct2, THEN conjunct2, THEN conjunct2]
  have h: "search_in_folder site_fixture ''f'' 1 = Inr results_three \<and> length results_three = 3 \<and>
    search_in_folder site_fixture ''f'' (1 + 1) = Inr [] \<and>
    (\<forall>r \<in> set results_three. \<not> isl (download site_fixture downloads (url r) None)) \<and>
    tqdm_init site_fixture = None \<and> tqdm_set_description site_fixture = None \<and>
    tqdm_update site_fixture = None \<and> tqdm_close site_fixture = None \<and>
    time_sleep site_fixture = None"
    by code_simp
  have np: "\<not> past_end None (1 + 1)" by code_simp
  note e = mp[OF E h]
  from e[THEN conjunct1] obtain d3 k3 where
    r: "download_folder site_fixture downloads ''f'' None 1 None False =
          Some (Inr \<lparr>current_page = 1 + 1, total_downloaded = d3, total_skipped = k3\<rparr>, downloads)"
    and s: "d3 + k3 = 3" and d: "d3 = (if False then int (length (filter premium results_three)) else 3)"
    by (elim exE conjE)
  have d3: "d3 = 3" using d by (simp only: if_False)
  have k3: "k3 = 0" using s unfolding d3 by arith
  have two: "(1::int) + 1 = 2" by arith
  have 1: "download_folder site_fixture downloads ''f'' None 1 None False =
     Some (Inr \<lparr>current_page = 2, total_downloaded = 3, total_skipped = 0\<rparr>, downloads)"
    using r unfolding d3 k3 two .
  note g = mp[OF e[THEN conjunct2] np]
  have 2: "page_goes_on site_fixture downloads ''f'' None None False 1" by (rule g[THEN conjunct1])
  have 3: "fetch_ends site_fixture ''f'' 2" using g[THEN conjunct2] unfolding two .
  note A = folder_crawl[where w = site_second_page_down and ds = downloads and folder_id = "''f''"
      and quality = None and start_page = 1 and end_page = None and premium_only = False
      and c = "\<lparr>current_page = 2, total_downloaded = 3, total_skipped = 0\<rparr>" and ds' = downloads,
      THEN conjunct1, THEN iffD2]
  have a0: "page_goes_on site_second_page_down downloads ''f'' None None False 1" by code_simp
  have a1: "\<forall>i<Suc 0. page_goes_on site_second_page_down downloads ''f'' None None False (1 + int i)"
    using a0 by simp
  have a2: "fetch_ends site_second_page_down ''f'' (1 + int (Suc 0))" by code_simp
  have a3: "\<lparr>current_page = 2, total_downloaded = 3, total_skipped = 0\<rparr> =
     after_pages site_second_page_down downloads ''f'' None False
       \<lparr>current_page = 1, total_downloaded = 0, total_skipped = 0\<rparr> (Suc 0)"
    by code_simp
  have 4: "download_folder site_second_page_down downloads ''f'' None 1 None False =
     Some (Inr \<lparr>current_page = 2, total_downloaded = 3, total_skipped = 0\<rparr>, downloads)"
    by (rule A, rule conjI[OF refl], rule exI[of _ "Suc 0"], rule conjI[OF a1],
        rule disjI1, rule conjI[OF a2 a3])
  note B = folder_crawl[where w = site_endless and ds = downloads and folder_id = "''f''"
      and quality = None and start_page = 1 and end_page = "Some 2" and premium_only = False
      and c = "\<lparr>current_page = 3, total_downloaded = 6, total_skipped = 0\<rparr>" and ds' = downloads,
      THEN conjunct1, THEN iffD2]
  have b0: "page_goes_on site_endless downloads ''f'' None (Some 2) False 1" by code_simp
  have b1: "\<forall>i<Suc 0. page_goes_on site_endless downloads ''f'' None (Some 2) False (1 + int i)"
    using b0 by simp
  have b2: "page_is_last site_endless downloads ''f'' None (Some 2) False (1 + int (Suc 0))"
    by code_simp
  have b3: "\<lparr>current_page = 3, total_downloaded = 6, total_skipped = 0\<rparr> =
     after_pages site_endless downloads ''f'' None False
       \<lparr>current_page = 1, total_downloaded = 0, total_skipped = 0\<rparr> (Suc (Suc 0))"
    by code_simp
  have 5: "download_folder site_endless downloads ''f'' None 1 (Some 2) False =
     Some (Inr \<lparr>current_page = 3, total_downloaded = 6, total_skipped = 0\<rparr>, downloads)"
    by (rule B, rule conjI[OF refl], rule exI[of _ "Suc 0"], rule conjI[OF b1],
        rule disjI2, rule conjI[OF b2 b3])
  note D = folder_crawl[where w = site_walled and ds = downloads and folder_id = "''f''"
      and quality = None and premium_only = False and p = 1 and rs = results_three
      and d = 2 and k = 1, THEN conjunct2, THEN conjunct2, THEN conjunct2, THEN conjunct1]
  have 6: "search_in_folder site_walled ''f'' 1 = Inr results_three" by code_simp
  have 7: "page_dispatch site_walled downloads ''f'' None False 1 = Some (2, 1)" by code_simp
  note c = mp[OF D conjI[OF 6 7]]
  have 8: "int (length (filter (\<lambda>r. \<not> isl (download_item site_walled downloads None r))
             results_three)) = 2"
    using c[THEN conjunct1] by (simp only: if_False)
  have 9: "int (length (filter (\<lambda>r. isl (download_item site_walled downloads None r))
             results_three)) = 1"
    using c[THEN conjunct2, THEN conjunct1] by (simp only: if_False add_0)
  show ?thesis
    by (rule conjI[OF 1 conjI[OF 2 conjI[OF 3 conjI[OF 4 conjI[OF 5 conjI[OF 6 conjI[OF 7
          conjI[OF 8 9]]]]]]]])
qed

end
